theory Spec2Isabelle
  imports Complex_Main
begin

section \<open>Numbers and errors\<close>

text \<open>
  JavaScript numbers are read as reals: landmark coordinates, timestamps of
  \<^verbatim>\<open>performance.now()\<close> (milliseconds) and angles. The only exception of the
  modelled code is the \<^verbatim>\<open>TypeError\<close> of a property read on \<^verbatim>\<open>undefined\<close> or
  \<^verbatim>\<open>null\<close>.
\<close>

datatype error = TypeError

text \<open>
  \<^verbatim>\<open>Math.atan2(y, x)\<close> on finite arguments, zeros read as \<^verbatim>\<open>+0\<close>.
\<close>

definition atan2 :: "real \<Rightarrow> real \<Rightarrow> real" where
  "atan2 y x =
     (if 0 < x then arctan (y / x)
      else if x < 0 then (if 0 \<le> y then arctan (y / x) + pi else arctan (y / x) - pi)
      else if 0 < y then pi / 2
      else if y < 0 then - (pi / 2)
      else 0)"

section \<open>handDetection.js: the gesture classifier\<close>

record point =
  x_of :: real
  y_of :: real

type_synonym landmarks = "point list"

definition PINCH_THRESHOLD :: real where
  "PINCH_THRESHOLD = 0.05"

definition HOLD_DURATION_MS :: real where
  "HOLD_DURATION_MS = 450"

text \<open>
  \<^verbatim>\<open>calculateHandRotation\<close>: the first property read that can fail is
  \<^verbatim>\<open>middleFingerTip.x\<close>, on a landmark array without index 12.
\<close>

definition normalizeAngle :: "real \<Rightarrow> real" where
  "normalizeAngle angle =
     (let angle1 = (if angle < - 180 then angle + 360 else angle)
      in if angle1 > 180 then angle1 - 360 else angle1)"

definition rawAngle :: "landmarks \<Rightarrow> real" where
  "rawAngle lm =
     (let wrist = lm ! 0;
          middleFingerTip = lm ! 12;
          dx = x_of middleFingerTip - x_of wrist;
          dy = y_of middleFingerTip - y_of wrist
      in atan2 dy dx * (180 / pi) + 90)"

definition calculateHandRotation :: "landmarks \<Rightarrow> error + real" where
  "calculateHandRotation lm =
     (if length lm \<le> 12 then Inl TypeError
      else Inr (max (- 90) (min 90 (normalizeAngle (rawAngle lm)))))"

definition fingerTips :: "nat list" where
  "fingerTips = [4, 8, 12, 16, 20]"

definition fingerMCPs :: "nat list" where
  "fingerMCPs = [2, 5, 9, 13, 17]"

text \<open>The loop of \<^verbatim>\<open>isFist\<close>: \<^verbatim>\<open>tip.y > mcp.y\<close> throws when either landmark is missing.\<close>

fun countFolded :: "landmarks \<Rightarrow> (nat \<times> nat) list \<Rightarrow> nat \<Rightarrow> error + nat" where
  "countFolded lm [] foldedFingers = Inr foldedFingers"
| "countFolded lm ((t, m) # rest) foldedFingers =
     (if t < length lm \<and> m < length lm
      then countFolded lm rest
             (if y_of (lm ! t) > y_of (lm ! m) then foldedFingers + 1 else foldedFingers)
      else Inl TypeError)"

definition isFist :: "landmarks \<Rightarrow> error + bool" where
  "isFist lm =
     (case countFolded lm (zip fingerTips fingerMCPs) 0 of
        Inl e \<Rightarrow> Inl e
      | Inr foldedFingers \<Rightarrow> Inr (foldedFingers \<ge> 4))"

definition pinchDistance :: "landmarks \<Rightarrow> real" where
  "pinchDistance lm =
     (let thumbTip = lm ! 4;
          indexTip = lm ! 8;
          dx = x_of thumbTip - x_of indexTip;
          dy = y_of thumbTip - y_of indexTip
      in sqrt (dx * dx + dy * dy))"

text \<open>\<^verbatim>\<open>&&\<close> short-circuits: \<^verbatim>\<open>isFist\<close> is only called on a close thumb and index.\<close>

definition isPinch :: "landmarks \<Rightarrow> error + bool" where
  "isPinch lm =
     (if length lm \<le> 8 then Inl TypeError
      else if pinchDistance lm < PINCH_THRESHOLD
      then (case isFist lm of Inl e \<Rightarrow> Inl e | Inr f \<Rightarrow> Inr (\<not> f))
      else Inr False)"

definition getPinchPosition :: "landmarks \<Rightarrow> error + point" where
  "getPinchPosition lm =
     (if length lm \<le> 8 then Inl TypeError
      else Inr \<lparr> x_of = (x_of (lm ! 4) + x_of (lm ! 8)) / 2,
                 y_of = (y_of (lm ! 4) + y_of (lm ! 8)) / 2 \<rparr>)"

section \<open>handDetection.js: the gesture state machine\<close>

text \<open>
  The handedness label of the landmark source is \<^verbatim>\<open>'Left'\<close> or \<^verbatim>\<open>'Right'\<close>;
  \<^verbatim>\<open>label.toLowerCase()\<close> keeps the side.
\<close>

datatype hand_label = Left | Right

record handedness =
  label :: hand_label
  score :: real

record results =
  multiHandLandmarks :: "landmarks list option"
  multiHandedness :: "handedness list option"

record pinch_data =
  position :: point
  hand :: hand_label

record detector =
  hand1Rotation :: real
  hand2Rotation :: real
  lastLeftRotation :: real
  lastRightRotation :: real
  lastFrameTime :: real
  frameCount :: nat
  fps :: nat
  isInitialized :: bool
  noDetectionCount :: nat
  maxNoDetection :: nat
  pinchActive :: bool
  pinchPosition :: "point option"
  pinchHand :: "hand_label option"
  fistHoldStart_left :: "real option"
  fistHoldStart_right :: "real option"
  pinchHoldStart :: "real option"
  fistActive_left :: bool
  fistActive_right :: bool
  pinchActiveConfirmed :: bool

text \<open>The constructor's field values (\<^verbatim>\<open>init\<close> sets \<^verbatim>\<open>isInitialized\<close> later).\<close>

definition new_detector :: detector where
  "new_detector =
     \<lparr> hand1Rotation = 0, hand2Rotation = 0, lastLeftRotation = 0, lastRightRotation = 0,
       lastFrameTime = 0, frameCount = 0, fps = 0, isInitialized = False,
       noDetectionCount = 0, maxNoDetection = 300,
       pinchActive = False, pinchPosition = None, pinchHand = None,
       fistHoldStart_left = None, fistHoldStart_right = None, pinchHoldStart = None,
       fistActive_left = False, fistActive_right = False, pinchActiveConfirmed = False \<rparr>"

text \<open>The locals of one call of \<^verbatim>\<open>getHandRotationAngle\<close>.\<close>

record frame_locals =
  leftFistDetected :: bool
  rightFistDetected :: bool
  pinchDetected :: bool
  pinchData :: "pinch_data option"

definition frame_start :: frame_locals where
  "frame_start =
     \<lparr> leftFistDetected = False, rightFistDetected = False,
       pinchDetected = False, pinchData = None \<rparr>"

text \<open>
  The body of the \<^verbatim>\<open>forEach\<close> callback for one hand. A throw leaves the detector as
  it is at that point, so the error carries it.
\<close>

definition handBody ::
  "handedness \<Rightarrow> landmarks \<Rightarrow> detector \<times> frame_locals \<Rightarrow>
     (error \<times> detector) + (detector \<times> frame_locals)" where
  "handBody h lm s =
     (case s of (d, f) \<Rightarrow>
      (case calculateHandRotation lm of Inl e \<Rightarrow> Inl (e, d) | Inr rotation \<Rightarrow>
      (case isFist lm of Inl e \<Rightarrow> Inl (e, d) | Inr fist \<Rightarrow>
      (case isPinch lm of Inl e \<Rightarrow> Inl (e, d) | Inr pinch \<Rightarrow>
      (case (if pinch
             then (case getPinchPosition lm of
                     Inl e \<Rightarrow> Inl (e, d)
                   | Inr p \<Rightarrow>
                       Inr (f\<lparr> pinchDetected := True,
                               pinchData := Some \<lparr> position = p, hand = label h \<rparr> \<rparr>))
             else Inr f) of
         Inl e \<Rightarrow> Inl e
       | Inr f1 \<Rightarrow>
           if fist \<and> \<not> pinch
           then (if label h = Left
                 then Inr (d\<lparr> hand1Rotation := rotation \<rparr>, f1\<lparr> leftFistDetected := True \<rparr>)
                 else Inr (d\<lparr> hand2Rotation := rotation \<rparr>, f1\<lparr> rightFistDetected := True \<rparr>))
           else Inr (d, f1))))))"

text \<open>
  \<^verbatim>\<open>results.multiHandedness.forEach((handedness, index) => ...)\<close> with
  \<^verbatim>\<open>landmarks = results.multiHandLandmarks[index]\<close>: the two arrays are walked in
  parallel, and a missing landmark array is \<^verbatim>\<open>undefined\<close>, whose first read throws.
\<close>

fun forEachHand ::
  "handedness list \<Rightarrow> landmarks list \<Rightarrow> detector \<times> frame_locals \<Rightarrow>
     (error \<times> detector) + (detector \<times> frame_locals)" where
  "forEachHand [] lms s = Inr s"
| "forEachHand (h # hs) [] s = Inl (TypeError, fst s)"
| "forEachHand (h # hs) (lm # lms) s =
     (case handBody h lm s of Inl e \<Rightarrow> Inl e | Inr s' \<Rightarrow> forEachHand hs lms s')"

text \<open>The three hold-to-activate blocks, in the order of the source.\<close>

definition processLeftFist :: "real \<Rightarrow> frame_locals \<Rightarrow> detector \<Rightarrow> detector" where
  "processLeftFist now f d =
     (if leftFistDetected f
      then (let d1 = (case fistHoldStart_left d of
                        None \<Rightarrow> d\<lparr> fistHoldStart_left := Some now \<rparr>
                      | Some start \<Rightarrow>
                          if \<not> fistActive_left d \<and> now - start \<ge> HOLD_DURATION_MS
                          then d\<lparr> fistActive_left := True \<rparr> else d)
            in if fistActive_left d1 then d1\<lparr> lastLeftRotation := hand1Rotation d1 \<rparr> else d1)
      else d\<lparr> fistHoldStart_left := None, fistActive_left := False \<rparr>)"

definition processRightFist :: "real \<Rightarrow> frame_locals \<Rightarrow> detector \<Rightarrow> detector" where
  "processRightFist now f d =
     (if rightFistDetected f
      then (let d1 = (case fistHoldStart_right d of
                        None \<Rightarrow> d\<lparr> fistHoldStart_right := Some now \<rparr>
                      | Some start \<Rightarrow>
                          if \<not> fistActive_right d \<and> now - start \<ge> HOLD_DURATION_MS
                          then d\<lparr> fistActive_right := True \<rparr> else d)
            in if fistActive_right d1 then d1\<lparr> lastRightRotation := hand2Rotation d1 \<rparr> else d1)
      else d\<lparr> fistHoldStart_right := None, fistActive_right := False \<rparr>)"

text \<open>
  In the confirmed branch \<^verbatim>\<open>pinchData.position\<close> is read; \<^verbatim>\<open>pinchData\<close> is null only
  if no hand set it, which \<^verbatim>\<open>pinchDetected\<close> excludes, and the model keeps the throw.
\<close>

definition processPinch :: "real \<Rightarrow> frame_locals \<Rightarrow> detector \<Rightarrow> (error \<times> detector) + detector" where
  "processPinch now f d =
     (if pinchDetected f
      then (let d1 = (case pinchHoldStart d of
                        None \<Rightarrow> d\<lparr> pinchHoldStart := Some now, pinchActiveConfirmed := False \<rparr>
                      | Some start \<Rightarrow>
                          if \<not> pinchActiveConfirmed d \<and> now - start \<ge> HOLD_DURATION_MS
                          then d\<lparr> pinchActiveConfirmed := True \<rparr> else d)
            in if pinchActiveConfirmed d1
               then (case pinchData f of
                       None \<Rightarrow> Inl (TypeError, d1\<lparr> pinchActive := True \<rparr>)
                     | Some pd \<Rightarrow>
                         Inr (d1\<lparr> pinchActive := True,
                                  pinchPosition := Some (position pd),
                                  pinchHand := Some (hand pd) \<rparr>))
               else Inr (d1\<lparr> pinchActive := False, pinchPosition := None, pinchHand := None \<rparr>))
      else Inr (d\<lparr> pinchHoldStart := None, pinchActiveConfirmed := False,
                   pinchActive := False, pinchPosition := None, pinchHand := None \<rparr>))"

record rotations =
  left :: real
  right :: real

text \<open>\<^verbatim>\<open>getHandRotationAngle(results)\<close>; \<open>now\<close> is the value of \<^verbatim>\<open>performance.now()\<close>.\<close>

definition getHandRotationAngle ::
  "real \<Rightarrow> results \<Rightarrow> detector \<Rightarrow> (error \<times> detector) + (detector \<times> rotations)" where
  "getHandRotationAngle now res d =
     (case (case (multiHandLandmarks res, multiHandedness res) of
              (Some lms, Some hs) \<Rightarrow> forEachHand hs lms (d, frame_start)
            | _ \<Rightarrow> Inr (d, frame_start)) of
        Inl e \<Rightarrow> Inl e
      | Inr (d1, f) \<Rightarrow>
          (case processPinch now f (processRightFist now f (processLeftFist now f d1)) of
             Inl e \<Rightarrow> Inl e
           | Inr d2 \<Rightarrow>
               Inr (d2, \<lparr> left = lastLeftRotation d2, right = lastRightRotation d2 \<rparr>)))"

record pinch_event =
  active :: bool
  pinch_position :: "point option"
  pinch_hand :: "hand_label option"

record gesture_event =
  handsDetected :: nat
  leftRotation :: real
  rightRotation :: real
  event_fps :: nat
  pinch :: pinch_event

text \<open>
  \<^verbatim>\<open>onResults(results)\<close>. \<open>now\<close> is its own reading of the clock and \<open>now'\<close> the one
  taken inside \<^verbatim>\<open>getHandRotationAngle\<close>. The result is the detector, the event given
  to the callback (none before initialization) and whether \<^verbatim>\<open>restartCamera\<close> was
  called. Drawing on the canvas and the debug status are left out.
\<close>

definition onResults ::
  "real \<Rightarrow> real \<Rightarrow> results \<Rightarrow> detector \<Rightarrow>
     (error \<times> detector) + (detector \<times> gesture_event option \<times> bool)" where
  "onResults now now' res d =
     (if \<not> isInitialized d then Inr (d, None, False)
      else
        let d1 = d\<lparr> frameCount := frameCount d + 1 \<rparr>;
            d2 = (if now - lastFrameTime d1 \<ge> 1000
                  then d1\<lparr> fps := frameCount d1, frameCount := 0, lastFrameTime := now \<rparr>
                  else d1)
        in case getHandRotationAngle now' res d2 of
             Inl e \<Rightarrow> Inl e
           | Inr (d3, rot) \<Rightarrow>
               let d4 = d3\<lparr> hand1Rotation := left rot, hand2Rotation := right rot \<rparr>;
                   n = (case multiHandLandmarks res of None \<Rightarrow> 0 | Some lms \<Rightarrow> length lms);
                   d5 = (if n = 0 then d4\<lparr> noDetectionCount := noDetectionCount d4 + 1 \<rparr>
                         else d4\<lparr> noDetectionCount := 0 \<rparr>);
                   restart = (n = 0 \<and> noDetectionCount d5 \<ge> maxNoDetection d5)
               in Inr (d5,
                       Some \<lparr> handsDetected = n,
                              leftRotation = hand1Rotation d5,
                              rightRotation = hand2Rotation d5,
                              event_fps = fps d5,
                              pinch = \<lparr> active = pinchActive d5,
                                        pinch_position = pinchPosition d5,
                                        pinch_hand = pinchHand d5 \<rparr> \<rparr>,
                       restart))"

text \<open>
  A run of camera frames: each frame is one call of \<^verbatim>\<open>onResults\<close>, and the run stops
  at the first exception.
\<close>

record frame =
  clock :: real
  clock' :: real
  frame_results :: results

fun runFrames :: "frame list \<Rightarrow> detector \<Rightarrow> (error \<times> detector) + detector" where
  "runFrames [] d = Inr d"
| "runFrames (fr # frs) d =
     (case onResults (clock fr) (clock' fr) (frame_results fr) d of
        Inl e \<Rightarrow> Inl e
      | Inr (d', ev, restart) \<Rightarrow> runFrames frs d')"

subsection \<open>Vocabulary for the properties of the state machine\<close>

text \<open>The hands of a frame, in iteration order.\<close>

definition frameHands :: "results \<Rightarrow> (handedness \<times> landmarks) list" where
  "frameHands res =
     (case (multiHandLandmarks res, multiHandedness res) of
        (Some lms, Some hs) \<Rightarrow> zip hs lms
      | _ \<Rightarrow> [])"

text \<open>
  A well-formed frame, as the landmark source delivers it: one array of 21 landmarks
  for every handedness entry.
\<close>

definition wellFormed :: "results \<Rightarrow> bool" where
  "wellFormed res =
     (case (multiHandLandmarks res, multiHandedness res) of
        (Some lms, Some hs) \<Rightarrow>
          length hs \<le> length lms \<and> list_all (\<lambda>lm. 21 \<le> length lm) (take (length hs) lms)
      | _ \<Rightarrow> True)"

definition pinching :: "handedness \<times> landmarks \<Rightarrow> bool" where
  "pinching hl = (isPinch (snd hl) = Inr True)"

definition fistOn :: "hand_label \<Rightarrow> handedness \<times> landmarks \<Rightarrow> bool" where
  "fistOn side hl =
     (label (fst hl) = side \<and> isFist (snd hl) = Inr True \<and> isPinch (snd hl) \<noteq> Inr True)"

text \<open>The three debounced gesture slots and their raw condition in a frame.\<close>

datatype slot = LeftFistSlot | RightFistSlot | PinchSlot

fun rawPresent :: "slot \<Rightarrow> results \<Rightarrow> bool" where
  "rawPresent LeftFistSlot res = list_ex (fistOn Left) (frameHands res)"
| "rawPresent RightFistSlot res = list_ex (fistOn Right) (frameHands res)"
| "rawPresent PinchSlot res = list_ex pinching (frameHands res)"

fun holdStart :: "slot \<Rightarrow> detector \<Rightarrow> real option" where
  "holdStart LeftFistSlot d = fistHoldStart_left d"
| "holdStart RightFistSlot d = fistHoldStart_right d"
| "holdStart PinchSlot d = pinchHoldStart d"

fun confirmed :: "slot \<Rightarrow> detector \<Rightarrow> bool" where
  "confirmed LeftFistSlot d = fistActive_left d"
| "confirmed RightFistSlot d = fistActive_right d"
| "confirmed PinchSlot d = pinchActiveConfirmed d"

text \<open>
  What a slot shows to the outside: the published rotation of a fist slot, the
  published pinch of the pinch slot.
\<close>

datatype published = Rotation real | PinchOff | PinchOn "point option" "hand_label option"

fun publishedBy :: "slot \<Rightarrow> detector \<Rightarrow> published" where
  "publishedBy LeftFistSlot d = Rotation (lastLeftRotation d)"
| "publishedBy RightFistSlot d = Rotation (lastRightRotation d)"
| "publishedBy PinchSlot d =
     (if pinchActive d then PinchOn (pinchPosition d) (pinchHand d) else PinchOff)"

text \<open>The rotation classified for the last fist of a side among the hands of a frame.\<close>

definition fistRotationIn :: "hand_label \<Rightarrow> (handedness \<times> landmarks) list \<Rightarrow> real option" where
  "fistRotationIn side hls =
     (case filter (fistOn side) hls of
        [] \<Rightarrow> None
      | hl # rest \<Rightarrow>
          (case calculateHandRotation (snd (last (hl # rest))) of
             Inl e \<Rightarrow> None
           | Inr r \<Rightarrow> Some r))"

text \<open>The pinch candidate of the last pinching hand among the hands of a frame.\<close>

definition pinchCandidateIn :: "(handedness \<times> landmarks) list \<Rightarrow> pinch_data option" where
  "pinchCandidateIn hls =
     (case filter pinching hls of
        [] \<Rightarrow> None
      | hl # rest \<Rightarrow>
          (case getPinchPosition (snd (last (hl # rest))) of
             Inl e \<Rightarrow> None
           | Inr p \<Rightarrow> Some \<lparr> position = p, hand = label (fst (last (hl # rest))) \<rparr>))"

text \<open>What a frame offers a slot to publish.\<close>

fun frameValue :: "slot \<Rightarrow> results \<Rightarrow> published option" where
  "frameValue LeftFistSlot res = map_option Rotation (fistRotationIn Left (frameHands res))"
| "frameValue RightFistSlot res = map_option Rotation (fistRotationIn Right (frameHands res))"
| "frameValue PinchSlot res =
     map_option (\<lambda>pd. PinchOn (Some (position pd)) (Some (hand pd)))
       (pinchCandidateIn (frameHands res))"

text \<open>The fist slot of a side and the rotation published for it.\<close>

fun fistSlot :: "hand_label \<Rightarrow> slot" where
  "fistSlot Left = LeftFistSlot"
| "fistSlot Right = RightFistSlot"

fun publishedRotation :: "hand_label \<Rightarrow> detector \<Rightarrow> real" where
  "publishedRotation Left d = lastLeftRotation d"
| "publishedRotation Right d = lastRightRotation d"

subsection \<open>The older copy of the detector\<close>

text \<open>
  \<^verbatim>\<open>handDetection.js\<close> carries a second, older copy of the class, without the
  hold-to-activate timers. Its \<^verbatim>\<open>getHandRotationAngle\<close> clears the published pinch at
  the start of every frame and sets it in the loop, for a pinching hand, only while
  \<^verbatim>\<open>this.pinchActive\<close> is still false. The locals are \<^verbatim>\<open>leftRotation\<close> and
  \<^verbatim>\<open>rightRotation\<close>.
\<close>

definition handBody_older ::
  "handedness \<Rightarrow> landmarks \<Rightarrow> detector \<times> rotations \<Rightarrow>
     (error \<times> detector) + (detector \<times> rotations)" where
  "handBody_older h lm s =
     (case s of (d, rot) \<Rightarrow>
      (case calculateHandRotation lm of Inl e \<Rightarrow> Inl (e, d) | Inr rotation \<Rightarrow>
      (case isFist lm of Inl e \<Rightarrow> Inl (e, d) | Inr fist \<Rightarrow>
      (case isPinch lm of Inl e \<Rightarrow> Inl (e, d) | Inr pinched \<Rightarrow>
      (case (if pinched \<and> \<not> pinchActive d
             then (case getPinchPosition lm of
                     Inl e \<Rightarrow> Inl (e, d\<lparr> pinchActive := True \<rparr>)
                   | Inr p \<Rightarrow>
                       Inr (d\<lparr> pinchActive := True, pinchPosition := Some p,
                               pinchHand := Some (label h) \<rparr>))
             else Inr d) of
         Inl e \<Rightarrow> Inl e
       | Inr d1 \<Rightarrow>
           if label h = Left
           then (let d2 = (if fist \<and> \<not> pinched then d1\<lparr> lastLeftRotation := rotation \<rparr> else d1)
                 in Inr (d2, rot\<lparr> left := lastLeftRotation d2 \<rparr>))
           else (let d2 = (if fist \<and> \<not> pinched then d1\<lparr> lastRightRotation := rotation \<rparr> else d1)
                 in Inr (d2, rot\<lparr> right := lastRightRotation d2 \<rparr>)))))))"

fun forEachHand_older ::
  "handedness list \<Rightarrow> landmarks list \<Rightarrow> detector \<times> rotations \<Rightarrow>
     (error \<times> detector) + (detector \<times> rotations)" where
  "forEachHand_older [] lms s = Inr s"
| "forEachHand_older (h # hs) [] s = Inl (TypeError, fst s)"
| "forEachHand_older (h # hs) (lm # lms) s =
     (case handBody_older h lm s of Inl e \<Rightarrow> Inl e | Inr s' \<Rightarrow> forEachHand_older hs lms s')"

definition getHandRotationAngle_older ::
  "results \<Rightarrow> detector \<Rightarrow> (error \<times> detector) + (detector \<times> rotations)" where
  "getHandRotationAngle_older res d =
     (let rot = \<lparr> left = lastLeftRotation d, right = lastRightRotation d \<rparr>;
          d1 = d\<lparr> pinchActive := False, pinchPosition := None, pinchHand := None \<rparr>
      in case (multiHandLandmarks res, multiHandedness res) of
           (Some lms, Some hs) \<Rightarrow> forEachHand_older hs lms (d1, rot)
         | _ \<Rightarrow> Inr (d1, rot))"


section \<open>audioEngine.js\<close>

subsection \<open>Values and tables\<close>

text \<open>
  What a caller can hand to a parameter setter: a finite number, one of the three
  non-finite numbers, or a value whose \<^verbatim>\<open>typeof\<close> is not \<^verbatim>\<open>'number'\<close>.
\<close>

datatype jsval = Number real | NaN | Infinity | NegInfinity | NonNumber

fun typeof_number :: "jsval \<Rightarrow> bool" where
  "typeof_number NonNumber = False"
| "typeof_number v = True"

text \<open>
  The global \<^verbatim>\<open>isNaN\<close> coerces its argument; in \<^verbatim>\<open>_validateNumber\<close> the \<^verbatim>\<open>||\<close>
  before it has already decided for a value that is not a number.
\<close>

fun isNaN :: "jsval \<Rightarrow> bool" where
  "isNaN NaN = True"
| "isNaN NonNumber = True"
| "isNaN v = False"

fun isFinite :: "jsval \<Rightarrow> bool" where
  "isFinite (Number v) = True"
| "isFinite v = False"

text \<open>
  \<^verbatim>\<open>_validateNumber(value, fallback)\<close>. The fallback is always one of the two
  \<^verbatim>\<open>lastValid\<close> fields, which start at 0 and only ever receive a result of this
  function, so it is a finite number.
\<close>

fun validateNumber :: "jsval \<Rightarrow> real \<Rightarrow> real" where
  "validateNumber v fallback =
     (if \<not> typeof_number v \<or> isNaN v \<or> \<not> isFinite v then fallback
      else (case v of Number r \<Rightarrow> r | _ \<Rightarrow> fallback))"

definition clamp :: "real \<Rightarrow> real \<Rightarrow> real \<Rightarrow> real" where
  "clamp v lo hi = max lo (min hi v)"

datatype engine_state = UNINITIALIZED | INITIALIZING | INITIALIZED | ERROR

definition ROOT_FREQUENCIES :: "(string \<times> real) list" where
  "ROOT_FREQUENCIES =
     [(''C'', 130.81), (''C#'', 138.59), (''Db'', 138.59),
      (''D'', 146.83), (''D#'', 155.56), (''Eb'', 155.56),
      (''E'', 164.81), (''F'', 174.61), (''F#'', 185.00),
      (''Gb'', 185.00), (''G'', 196.00), (''G#'', 207.65),
      (''Ab'', 207.65), (''A'', 220.00), (''A#'', 233.08),
      (''Bb'', 233.08), (''B'', 246.94)]"

definition MAJOR_INTERVALS :: "real list" where
  "MAJOR_INTERVALS = [1, 1.5, 2, 2.52]"

definition MINOR_INTERVALS :: "real list" where
  "MINOR_INTERVALS = [1, 1.5, 2, 2.4]"

text \<open>
  \<^verbatim>\<open>ROOT_FREQUENCIES[rootName]\<close> is a property read on an object literal: a name that
  is not in the table but is a property of \<^verbatim>\<open>Object.prototype\<close> yields that inherited
  function or object, not \<^verbatim>\<open>undefined\<close>.
\<close>

definition OBJECT_PROTOTYPE_KEYS :: "string list" where
  "OBJECT_PROTOTYPE_KEYS =
     [''constructor'', ''__proto__'', ''hasOwnProperty'', ''isPrototypeOf'',
      ''propertyIsEnumerable'', ''toLocaleString'', ''toString'', ''valueOf'',
      ''__defineGetter__'', ''__defineSetter__'', ''__lookupGetter__'', ''__lookupSetter__'']"

datatype property = Undefined | NumberProperty real | InheritedProperty

definition rootFrequency :: "string \<Rightarrow> property" where
  "rootFrequency rootName =
     (case map_of ROOT_FREQUENCIES rootName of
        Some f \<Rightarrow> NumberProperty f
      | None \<Rightarrow> if rootName \<in> set OBJECT_PROTOTYPE_KEYS then InheritedProperty else Undefined)"

text \<open>
  A frequency handed to an oscillator: a number of Hz, \<^verbatim>\<open>NaN\<close> (an inherited property
  times a ratio) or \<^verbatim>\<open>undefined\<close> (an index past the end of \<^verbatim>\<open>newFreqs\<close>).
\<close>

datatype freq = Hz real | NaNHz | UndefinedHz

subsection \<open>The nodes of the synthesizer\<close>

text \<open>
  The Tone.js objects are kept by the parameters the engine writes: a node field holds
  the value last set or the target of the last ramp. Every write is also appended to
  \<open>toneCalls\<close>, the sequence of calls made on the audio graph.
\<close>

datatype osc_shape = Triangle | Sawtooth

record fat_oscillator =
  osc_type :: osc_shape
  osc_frequency :: freq
  osc_spread :: real

record lfo =
  lfo_frequency :: real
  lfo_min :: real
  lfo_max :: real

record filter_params =
  filter_frequency :: real
  filter_Q :: real

record chorus_params =
  chorus_frequency :: real
  chorus_depth :: real

record reverb_params =
  reverb_decay :: real
  reverb_wet :: real

datatype bank = Rounded | Saturated

datatype tone_call =
    GainRampTo bank real real
  | FilterFrequencyRampTo real real
  | FilterQRampTo real real
  | ChorusDepthSet real
  | ChorusFrequencyRampTo real real
  | WidenerWidthRampTo real real
  | VoiceSpreadSet bank nat real
  | LFOMinSet bank nat real
  | LFOMaxSet bank nat real
  | VoiceFrequencyRampTo bank nat freq real

record engine =
  roundedVoices :: "fat_oscillator list"
  saturatedVoices :: "fat_oscillator list"
  roundedGain :: "real option"
  saturatedGain :: "real option"
  roundedLFOs :: "lfo list"
  saturatedLFOs :: "lfo list"
  voiceMixer :: "real option"
  filter_node :: "filter_params option"
  chorus :: "chorus_params option"
  stereoWidener :: "real option"
  reverb :: "reverb_params option"
  masterGain :: "real option"
  state :: engine_state
  initPromise :: bool
  pendingIntensity :: "real option"
  pendingWidth :: "real option"
  lastValidIntensity :: real
  lastValidWidth :: real
  currentKey :: string
  isMinor :: bool
  glideTime :: real
  baseFreqs :: "freq list"
  toneCalls :: "tone_call list"

text \<open>The constructor; \<open>initPromise\<close> tells whether a promise is stored.\<close>

definition new_engine :: engine where
  "new_engine =
     \<lparr> roundedVoices = [], saturatedVoices = [], roundedGain = None, saturatedGain = None,
       roundedLFOs = [], saturatedLFOs = [], voiceMixer = None,
       filter_node = None, chorus = None, stereoWidener = None, reverb = None,
       masterGain = None,
       state = UNINITIALIZED, initPromise = False,
       pendingIntensity = None, pendingWidth = None,
       lastValidIntensity = 0, lastValidWidth = 0,
       currentKey = ''C'', isMinor = False, glideTime = 0.5,
       baseFreqs = [Hz 130.81, Hz 196.00, Hz 261.63, Hz 329.63],
       toneCalls = [] \<rparr>"

definition isInitialized_engine :: "engine \<Rightarrow> bool" where
  "isInitialized_engine e = (state e = INITIALIZED)"

subsection \<open>The parameter setters\<close>

text \<open>
  \<^verbatim>\<open>setWidth(widthAmount)\<close>. A read on a node that is still \<^verbatim>\<open>null\<close> throws, with
  the engine as the statements before it left it.
\<close>

definition spreadCalls :: "bank \<Rightarrow> nat \<Rightarrow> real \<Rightarrow> tone_call list" where
  "spreadCalls b n spread = map (\<lambda>i. VoiceSpreadSet b i spread) [0..<n]"

definition lfoCalls :: "bank \<Rightarrow> nat \<Rightarrow> real \<Rightarrow> tone_call list" where
  "lfoCalls b n lfoDepth = concat (map (\<lambda>i. [LFOMinSet b i (- lfoDepth), LFOMaxSet b i lfoDepth]) [0..<n])"

definition setWidth :: "jsval \<Rightarrow> engine \<Rightarrow> (error \<times> engine) + engine" where
  "setWidth widthAmount e =
     (let validWidth = validateNumber widthAmount (lastValidWidth e);
          e1 = e\<lparr> lastValidWidth := validWidth \<rparr>
      in if \<not> isInitialized_engine e1 then Inr (e1\<lparr> pendingWidth := Some validWidth \<rparr>)
         else
           let w = clamp validWidth 0 1;
               spread = 10 + (w * 40);
               e2 = e1\<lparr> roundedVoices := map (\<lambda>voice. voice\<lparr> osc_spread := spread \<rparr>) (roundedVoices e1),
                        saturatedVoices := map (\<lambda>voice. voice\<lparr> osc_spread := spread \<rparr>) (saturatedVoices e1),
                        toneCalls := toneCalls e1 @ spreadCalls Rounded (length (roundedVoices e1)) spread
                                       @ spreadCalls Saturated (length (saturatedVoices e1)) spread \<rparr>;
               chorusFreq = 1 + (w * 5)
           in case chorus e2 of
                None \<Rightarrow> Inl (TypeError, e2)
              | Some c \<Rightarrow>
                  let e3 = e2\<lparr> chorus := Some (c\<lparr> chorus_frequency := chorusFreq \<rparr>),
                               toneCalls := toneCalls e2 @ [ChorusFrequencyRampTo chorusFreq 0.1] \<rparr>;
                      lfoDepth = 2 + (w * 13);
                      e4 = e3\<lparr> roundedLFOs := map (\<lambda>l. l\<lparr> lfo_min := - lfoDepth, lfo_max := lfoDepth \<rparr>) (roundedLFOs e3),
                               saturatedLFOs := map (\<lambda>l. l\<lparr> lfo_min := - lfoDepth, lfo_max := lfoDepth \<rparr>) (saturatedLFOs e3),
                               toneCalls := toneCalls e3 @ lfoCalls Rounded (length (roundedLFOs e3)) lfoDepth
                                              @ lfoCalls Saturated (length (saturatedLFOs e3)) lfoDepth \<rparr>;
                      stereoWidth = 0.3 + (w * 0.7)
                  in case stereoWidener e4 of
                       None \<Rightarrow> Inl (TypeError, e4)
                     | Some sw \<Rightarrow>
                         Inr (e4\<lparr> stereoWidener := Some stereoWidth,
                                  toneCalls := toneCalls e4 @ [WidenerWidthRampTo stereoWidth 0.1] \<rparr>))"

text \<open>\<^verbatim>\<open>setIntensity(intensityAmount)\<close>.\<close>

definition setIntensity :: "jsval \<Rightarrow> engine \<Rightarrow> (error \<times> engine) + engine" where
  "setIntensity intensityAmount e =
     (let validIntensity = validateNumber intensityAmount (lastValidIntensity e);
          e1 = e\<lparr> lastValidIntensity := validIntensity \<rparr>
      in if \<not> isInitialized_engine e1 then Inr (e1\<lparr> pendingIntensity := Some validIntensity \<rparr>)
         else
           let i = clamp validIntensity 0 1
           in case roundedGain e1 of
                None \<Rightarrow> Inl (TypeError, e1)
              | Some g \<Rightarrow>
                  let e2 = e1\<lparr> roundedGain := Some (1 - i),
                               toneCalls := toneCalls e1 @ [GainRampTo Rounded (1 - i) 0.1] \<rparr>
                  in case saturatedGain e2 of
                       None \<Rightarrow> Inl (TypeError, e2)
                     | Some g' \<Rightarrow>
                         let e3 = e2\<lparr> saturatedGain := Some i,
                                      toneCalls := toneCalls e2 @ [GainRampTo Saturated i 0.1] \<rparr>;
                             filterFreq = 300 + (i * 4700)
                         in case filter_node e3 of
                              None \<Rightarrow> Inl (TypeError, e3)
                            | Some fl \<Rightarrow>
                                let filterQ = 1 + (i * 2);
                                    e4 = e3\<lparr> filter_node := Some \<lparr> filter_frequency = filterFreq, filter_Q = filterQ \<rparr>,
                                             toneCalls := toneCalls e3 @ [FilterFrequencyRampTo filterFreq 0.1,
                                                                            FilterQRampTo filterQ 0.1] \<rparr>;
                                    chorusDepth = 0.3 + (i * 0.5)
                                in case chorus e4 of
                                     None \<Rightarrow> Inl (TypeError, e4)
                                   | Some c \<Rightarrow>
                                       Inr (e4\<lparr> chorus := Some (c\<lparr> chorus_depth := chorusDepth \<rparr>),
                                                toneCalls := toneCalls e4 @ [ChorusDepthSet chorusDepth] \<rparr>))"

subsection \<open>Initialization\<close>

text \<open>
  \<^verbatim>\<open>init()\<close> up to the first \<^verbatim>\<open>await\<close> of \<^verbatim>\<open>_doInit\<close>: either nothing happens
  (already initialized, or an attempt is in flight and its promise is returned), or
  the state becomes \<^verbatim>\<open>INITIALIZING\<close> and the promise of the new attempt is stored.
\<close>

definition init :: "engine \<Rightarrow> engine" where
  "init e =
     (if state e = INITIALIZED then e
      else if state e = INITIALIZING \<and> initPromise e then e
      else e\<lparr> state := INITIALIZING, initPromise := True \<rparr>)"

text \<open>The \<^verbatim>\<open>catch\<close> block of \<^verbatim>\<open>_doInit\<close>; the promise is rejected.\<close>

definition doInit_catch :: "engine \<Rightarrow> engine" where
  "doInit_catch e = e\<lparr> state := ERROR, initPromise := False \<rparr>"

text \<open>\<^verbatim>\<open>_doInit\<close> between \<^verbatim>\<open>await Tone.start()\<close> and \<^verbatim>\<open>await this.reverb.generate()\<close>.\<close>

definition doInit_afterStart :: "engine \<Rightarrow> engine" where
  "doInit_afterStart e =
     e\<lparr> masterGain := Some 0.25,
        reverb := Some \<lparr> reverb_decay = 4, reverb_wet = 0.35 \<rparr> \<rparr>"

definition newVoices :: "osc_shape \<Rightarrow> freq list \<Rightarrow> fat_oscillator list" where
  "newVoices shape freqs =
     map (\<lambda>fr. \<lparr> osc_type = shape, osc_frequency = fr, osc_spread = 20 \<rparr>) freqs"

definition newLFOs :: "real \<Rightarrow> nat \<Rightarrow> lfo list" where
  "newLFOs base n =
     map (\<lambda>i. \<lparr> lfo_frequency = base + (real i * 0.02), lfo_min = - 3, lfo_max = 3 \<rparr>) [0..<n]"

text \<open>
  \<^verbatim>\<open>_doInit\<close> from the resolution of \<^verbatim>\<open>reverb.generate()\<close> to its end, in two
  parts. First the rest of the graph is built and the state becomes \<^verbatim>\<open>INITIALIZED\<close>.
\<close>

definition doInit_buildGraph :: "engine \<Rightarrow> engine" where
  "doInit_buildGraph e =
     (let e1 = e\<lparr> stereoWidener := Some 0.5,
                  chorus := Some \<lparr> chorus_frequency = 2.5, chorus_depth = 0.5 \<rparr>,
                  filter_node := Some \<lparr> filter_frequency = 400, filter_Q = 1.5 \<rparr>,
                  voiceMixer := Some 0.6,
                  roundedGain := Some 1.0,
                  saturatedGain := Some 0.0 \<rparr>;
          e2 = e1\<lparr> roundedVoices := roundedVoices e1 @ newVoices Triangle (baseFreqs e1),
                   roundedLFOs := roundedLFOs e1 @ newLFOs 0.08 (length (baseFreqs e1)) \<rparr>;
          e3 = e2\<lparr> saturatedVoices := saturatedVoices e2 @ newVoices Sawtooth (baseFreqs e2),
                   saturatedLFOs := saturatedLFOs e2 @ newLFOs 0.09 (length (baseFreqs e2)) \<rparr>
      in e3\<lparr> state := INITIALIZED \<rparr>)"

text \<open>
  Then the queued parameters are applied, the width first. An exception in a setter is
  caught by the \<^verbatim>\<open>catch\<close> block. The result says whether the promise was rejected.
\<close>

definition doInit_replay :: "engine \<Rightarrow> engine \<times> error option" where
  "doInit_replay e =
     (case (case pendingWidth e of
              None \<Rightarrow> Inr e
            | Some w \<Rightarrow>
                (case setWidth (Number w) e of
                   Inl x \<Rightarrow> Inl x
                 | Inr e1 \<Rightarrow> Inr (e1\<lparr> pendingWidth := None \<rparr>))) of
        Inl (err, e') \<Rightarrow> (doInit_catch e', Some err)
      | Inr e1 \<Rightarrow>
          (case pendingIntensity e1 of
             None \<Rightarrow> (e1, None)
           | Some i \<Rightarrow>
               (case setIntensity (Number i) e1 of
                  Inl (err, e') \<Rightarrow> (doInit_catch e', Some err)
                | Inr e2 \<Rightarrow> (e2\<lparr> pendingIntensity := None \<rparr>, None))))"

definition doInit_afterReverb :: "engine \<Rightarrow> engine \<times> error option" where
  "doInit_afterReverb e = doInit_replay (doInit_buildGraph e)"

subsection \<open>Changing the key\<close>

text \<open>\<^verbatim>\<open>keyName.endsWith('m')\<close> and \<^verbatim>\<open>keyName.slice(0, -1)\<close>.\<close>

definition endsWith_m :: "string \<Rightarrow> bool" where
  "endsWith_m keyName = (keyName \<noteq> [] \<and> last keyName = CHR ''m'')"

definition timesRatio :: "property \<Rightarrow> real \<Rightarrow> freq" where
  "timesRatio rootFreq ratio =
     (case rootFreq of NumberProperty f \<Rightarrow> Hz (f * ratio) | _ \<Rightarrow> NaNHz)"

definition freqAt :: "freq list \<Rightarrow> nat \<Rightarrow> freq" where
  "freqAt newFreqs i = (if i < length newFreqs then newFreqs ! i else UndefinedHz)"

definition glideVoices :: "freq list \<Rightarrow> fat_oscillator list \<Rightarrow> fat_oscillator list" where
  "glideVoices newFreqs voices =
     map (\<lambda>(voice, i). voice\<lparr> osc_frequency := freqAt newFreqs i \<rparr>) (zip voices [0..<length voices])"

definition glideCalls :: "bank \<Rightarrow> freq list \<Rightarrow> nat \<Rightarrow> real \<Rightarrow> tone_call list" where
  "glideCalls b newFreqs n t = map (\<lambda>i. VoiceFrequencyRampTo b i (freqAt newFreqs i) t) [0..<n]"

text \<open>
  \<^verbatim>\<open>setKey(keyName)\<close>; the second component is the text of the \<^verbatim>\<open>console.warn\<close> of
  the unknown-key branch, if it was taken.
\<close>

definition setKey :: "string \<Rightarrow> engine \<Rightarrow> engine \<times> string option" where
  "setKey keyName e =
     (let minor = endsWith_m keyName;
          rootName = (if minor then butlast keyName else keyName);
          rootFreq = rootFrequency rootName
      in if rootFreq = Undefined then (e, Some (''Unknown key: '' @ keyName))
         else
           let intervals = (if minor then MINOR_INTERVALS else MAJOR_INTERVALS);
               newFreqs = map (timesRatio rootFreq) intervals;
               e1 = e\<lparr> currentKey := keyName, isMinor := minor, baseFreqs := newFreqs \<rparr>
           in if \<not> isInitialized_engine e1 then (e1, None)
              else
                (e1\<lparr> roundedVoices := glideVoices newFreqs (roundedVoices e1),
                     saturatedVoices := glideVoices newFreqs (saturatedVoices e1),
                     toneCalls := toneCalls e1
                        @ glideCalls Rounded newFreqs (length (roundedVoices e1)) (glideTime e1)
                        @ glideCalls Saturated newFreqs (length (saturatedVoices e1)) (glideTime e1) \<rparr>,
                 None))"

definition getCurrentKey :: "engine \<Rightarrow> string" where
  "getCurrentKey e = currentKey e"

subsection \<open>Vocabulary for the properties of the engine\<close>

text \<open>Once initialized, the nodes the setters write to exist.\<close>

definition nodesReady :: "engine \<Rightarrow> bool" where
  "nodesReady e =
     (state e = INITIALIZED \<longrightarrow>
        roundedGain e \<noteq> None \<and> saturatedGain e \<noteq> None \<and> filter_node e \<noteq> None \<and>
        chorus e \<noteq> None \<and> stereoWidener e \<noteq> None)"

text \<open>The calls of the intensity mapping and those of the width mapping.\<close>

definition intensityCalls :: "real \<Rightarrow> tone_call list" where
  "intensityCalls i =
     [GainRampTo Rounded (1 - i) 0.1, GainRampTo Saturated i 0.1,
      FilterFrequencyRampTo (300 + i * 4700) 0.1, FilterQRampTo (1 + i * 2) 0.1,
      ChorusDepthSet (0.3 + i * 0.5)]"

fun isWidthCall :: "tone_call \<Rightarrow> bool" where
  "isWidthCall (VoiceSpreadSet b i v) = True"
| "isWidthCall (ChorusFrequencyRampTo v t) = True"
| "isWidthCall (LFOMinSet b i v) = True"
| "isWidthCall (LFOMaxSet b i v) = True"
| "isWidthCall (WidenerWidthRampTo v t) = True"
| "isWidthCall c = False"

definition widthCalls :: "engine \<Rightarrow> real \<Rightarrow> tone_call list" where
  "widthCalls e w =
     spreadCalls Rounded (length (roundedVoices e)) (10 + w * 40)
     @ spreadCalls Saturated (length (saturatedVoices e)) (10 + w * 40)
     @ [ChorusFrequencyRampTo (1 + w * 5) 0.1]
     @ lfoCalls Rounded (length (roundedLFOs e)) (2 + w * 13)
     @ lfoCalls Saturated (length (saturatedLFOs e)) (2 + w * 13)
     @ [WidenerWidthRampTo (0.3 + w * 0.7) 0.1]"

text \<open>
  What can happen to an engine before its initialization completes: calls of its
  methods, and the steps of an initialization in flight.
\<close>

datatype engine_call =
    CallInit
  | ResumeAfterStart
  | RejectInit
  | CallSetWidth jsval
  | CallSetIntensity jsval
  | CallSetKey string

fun applyCall :: "engine_call \<Rightarrow> engine \<Rightarrow> (error \<times> engine) + engine" where
  "applyCall CallInit e = Inr (init e)"
| "applyCall ResumeAfterStart e = Inr (doInit_afterStart e)"
| "applyCall RejectInit e = Inr (doInit_catch e)"
| "applyCall (CallSetWidth v) e = setWidth v e"
| "applyCall (CallSetIntensity v) e = setIntensity v e"
| "applyCall (CallSetKey k) e = Inr (fst (setKey k e))"

fun applyCalls :: "engine_call list \<Rightarrow> engine \<Rightarrow> (error \<times> engine) + engine" where
  "applyCalls [] e = Inr e"
| "applyCalls (c # cs) e =
     (case applyCall c e of Inl x \<Rightarrow> Inl x | Inr e' \<Rightarrow> applyCalls cs e')"

fun isIntensityCall :: "engine_call \<Rightarrow> bool" where
  "isIntensityCall (CallSetIntensity v) = True"
| "isIntensityCall c = False"


section \<open>keyOverlay.js: the key selector\<close>

definition MAJOR_KEYS :: "string list" where
  "MAJOR_KEYS = [''C'', ''G'', ''D'', ''A'', ''E'', ''B'', ''F#'', ''Db'', ''Ab'', ''Eb'', ''Bb'', ''F'']"

definition MINOR_KEYS :: "string list" where
  "MINOR_KEYS = [''Am'', ''Em'', ''Bm'', ''F#m'', ''C#m'', ''G#m'', ''Ebm'', ''Bbm'', ''Fm'', ''Cm'', ''Gm'', ''Dm'']"

definition CENTER_RADIUS :: real where
  "CENTER_RADIUS = 0.12"

definition INNER_RADIUS :: real where
  "INNER_RADIUS = 0.25"

definition OUTER_RADIUS :: real where
  "OUTER_RADIUS = 0.42"

text \<open>
  The fields of the overlay that the hit test reads. The canvas has whole, non-negative
  pixel dimensions.
\<close>

record overlay =
  canvas_width :: nat
  canvas_height :: nat
  centerX :: real
  centerY :: real
  minDim :: real
  rotationOffset :: real

text \<open>\<^verbatim>\<open>resize()\<close>, for a window of the given inner width and height.\<close>

definition resize :: "nat \<Rightarrow> nat \<Rightarrow> overlay \<Rightarrow> overlay" where
  "resize innerWidth innerHeight ov =
     (let ov1 = ov\<lparr> canvas_width := innerWidth, canvas_height := innerHeight \<rparr>
      in ov1\<lparr> centerX := real (canvas_width ov1) / 2,
              centerY := real (canvas_height ov1) / 2,
              minDim := min (real (canvas_width ov1)) (real (canvas_height ov1)) \<rparr>)"

text \<open>The \<^verbatim>\<open>%\<close> of JavaScript on numbers: the remainder of the truncated quotient.\<close>

definition jsRemainder :: "real \<Rightarrow> real \<Rightarrow> real" where
  "jsRemainder a b =
     a - b * of_int (if 0 \<le> a / b then \<lfloor>a / b\<rfloor> else \<lceil>a / b\<rceil>)"

text \<open>
  The angle of the pinch and its segment. \<^verbatim>\<open>-dy\<close> is \<^verbatim>\<open>-0\<close> when \<^verbatim>\<open>dy\<close> is 0, and
  \<^verbatim>\<open>Math.atan2(0, -0)\<close> is \<open>\<pi>\<close>; for every other argument the sign of a zero makes no
  difference.
\<close>

definition pinchAngle :: "overlay \<Rightarrow> real \<Rightarrow> real \<Rightarrow> real" where
  "pinchAngle ov dx dy =
     (let angle = (if dx = 0 \<and> dy = 0 then pi else atan2 dx (- dy));
          angle1 = (if angle < 0 then angle + pi * 2 else angle)
      in jsRemainder (angle1 - rotationOffset ov + pi * 2) (pi * 2))"

definition segmentIndex :: "overlay \<Rightarrow> real \<Rightarrow> real \<Rightarrow> int" where
  "segmentIndex ov dx dy = \<lfloor>pinchAngle ov dx dy / (pi * 2 / 12)\<rfloor>"

text \<open>
  What the hit test returns: \<^verbatim>\<open>null\<close>, a key name, or \<^verbatim>\<open>undefined\<close> for an index
  outside a table.
\<close>

datatype key_result = Null | UndefinedKey | KeyName string

definition tableEntry :: "string list \<Rightarrow> int \<Rightarrow> key_result" where
  "tableEntry table i =
     (if 0 \<le> i \<and> i < int (length table) then KeyName (table ! nat i) else UndefinedKey)"

text \<open>\<^verbatim>\<open>getKeyAtPosition(normalizedPos)\<close>; a position that is \<^verbatim>\<open>null\<close> is \<open>None\<close>.\<close>

definition getKeyAtPosition :: "overlay \<Rightarrow> point option \<Rightarrow> key_result" where
  "getKeyAtPosition ov normalizedPos =
     (case normalizedPos of
        None \<Rightarrow> Null
      | Some p \<Rightarrow>
          let x = x_of p * real (canvas_width ov);
              y = y_of p * real (canvas_height ov);
              dx = x - centerX ov;
              dy = y - centerY ov;
              distance = sqrt (dx * dx + dy * dy);
              centerRadius = CENTER_RADIUS * minDim ov;
              innerRadius = INNER_RADIUS * minDim ov;
              outerRadius = OUTER_RADIUS * minDim ov
          in if distance < centerRadius then Null
             else
               let i = segmentIndex ov dx dy
               in if distance < innerRadius then tableEntry MINOR_KEYS i
                  else if distance < outerRadius then tableEntry MAJOR_KEYS i
                  else Null)"

subsection \<open>Vocabulary for the properties of the key selector\<close>

text \<open>The distance of a normalized position from the centre of the canvas, in pixels.\<close>

definition distanceFromCenter :: "nat \<Rightarrow> nat \<Rightarrow> point \<Rightarrow> real" where
  "distanceFromCenter w h p =
     sqrt ((x_of p * real w - real w / 2) * (x_of p * real w - real w / 2)
         + (y_of p * real h - real h / 2) * (y_of p * real h - real h / 2))"

definition segmentAt :: "overlay \<Rightarrow> point \<Rightarrow> int" where
  "segmentAt ov p =
     segmentIndex ov (x_of p * real (canvas_width ov) - centerX ov)
                     (y_of p * real (canvas_height ov) - centerY ov)"

text \<open>The root name that \<^verbatim>\<open>setKey\<close> looks up for a key name.\<close>

definition rootNameOf :: "string \<Rightarrow> string" where
  "rootNameOf keyName = (if endsWith_m keyName then butlast keyName else keyName)"


section \<open>Sample inputs\<close>

text \<open>
  Landmark sets used to exercise the theorems: a closed fist whose middle finger points
  up and to the right (45 degrees), the same fist turned to 90 degrees, two pinching
  hands at different places, and an open hand.
\<close>

definition pt :: "real \<Rightarrow> real \<Rightarrow> point" where
  "pt a b = \<lparr> x_of = a, y_of = b \<rparr>"

definition sample_fist :: landmarks where
  "sample_fist =
     [pt 0.5 0.5, pt 0.45 0.35, pt 0.45 0.3, pt 0.42 0.35, pt 0.4 0.4,
      pt 0.5 0.3, pt 0.5 0.35, pt 0.5 0.35, pt 0.5 0.4,
      pt 0.55 0.3, pt 0.55 0.35, pt 0.55 0.35, pt 0.6 0.4,
      pt 0.6 0.3, pt 0.6 0.35, pt 0.6 0.35, pt 0.65 0.4,
      pt 0.65 0.3, pt 0.65 0.35, pt 0.65 0.35, pt 0.7 0.4]"

definition sample_fist_turned :: landmarks where
  "sample_fist_turned = sample_fist[12 := pt 0.6 0.5]"

definition sample_pinch :: landmarks where
  "sample_pinch = (replicate 21 (pt 0.6 0.3))[8 := pt 0.62 0.3]"

definition sample_pinch_other :: landmarks where
  "sample_pinch_other = (replicate 21 (pt 0.2 0.7))[8 := pt 0.22 0.7]"

definition sample_open :: landmarks where
  "sample_open = (replicate 21 (pt 0.5 0.5))[8 := pt 0.7 0.5]"

definition hand_of :: "hand_label \<Rightarrow> handedness" where
  "hand_of side = \<lparr> label = side, score = 0.9 \<rparr>"

definition frame_of :: "real \<Rightarrow> (handedness \<times> landmarks) list \<Rightarrow> frame" where
  "frame_of t hls =
     \<lparr> clock = t, clock' = t,
       frame_results = \<lparr> multiHandLandmarks = Some (map snd hls),
                         multiHandedness = Some (map fst hls) \<rparr> \<rparr>"

definition started_detector :: detector where
  "started_detector = new_detector\<lparr> isInitialized := True \<rparr>"

text \<open>
  A left hand pinching and a right hand holding a fist, seen at 0 ms and again at
  500 ms, with the detector after each of the two frames.
\<close>

definition pinch_and_fist :: results where
  "pinch_and_fist =
     \<lparr> multiHandLandmarks = Some [sample_pinch, sample_fist],
       multiHandedness = Some [hand_of Left, hand_of Right] \<rparr>"

definition detector_holding :: detector where
  "detector_holding =
     \<lparr> hand1Rotation = 0, hand2Rotation = 0, lastLeftRotation = 0, lastRightRotation = 0,
       lastFrameTime = 0, frameCount = 1, fps = 0, isInitialized = True,
       noDetectionCount = 0, maxNoDetection = 300,
       pinchActive = False, pinchPosition = None, pinchHand = None,
       fistHoldStart_left = None, fistHoldStart_right = Some 0, pinchHoldStart = Some 0,
       fistActive_left = False, fistActive_right = False, pinchActiveConfirmed = False \<rparr>"

definition event_holding :: gesture_event where
  "event_holding =
     \<lparr> handsDetected = 2, leftRotation = 0, rightRotation = 0, event_fps = 0,
       pinch = \<lparr> active = False, pinch_position = None, pinch_hand = None \<rparr> \<rparr>"

definition detector_pinch_and_fist :: detector where
  "detector_pinch_and_fist =
     \<lparr> hand1Rotation = 0, hand2Rotation = 45, lastLeftRotation = 0, lastRightRotation = 45,
       lastFrameTime = 0, frameCount = 2, fps = 0, isInitialized = True,
       noDetectionCount = 0, maxNoDetection = 300,
       pinchActive = True, pinchPosition = Some (pt 0.61 0.3), pinchHand = Some Left,
       fistHoldStart_left = None, fistHoldStart_right = Some 0, pinchHoldStart = Some 0,
       fistActive_left = False, fistActive_right = True, pinchActiveConfirmed = True \<rparr>"

definition event_pinch_and_fist :: gesture_event where
  "event_pinch_and_fist =
     \<lparr> handsDetected = 2, leftRotation = 0, rightRotation = 45, event_fps = 0,
       pinch = \<lparr> active = True, pinch_position = Some (pt 0.61 0.3), pinch_hand = Some Left \<rparr> \<rparr>"

text \<open>The frame after that: the fist is gone, the left hand still pinches (600 ms).\<close>

definition pinch_only :: results where
  "pinch_only =
     \<lparr> multiHandLandmarks = Some [sample_pinch], multiHandedness = Some [hand_of Left] \<rparr>"

definition detector_pinch_only :: detector where
  "detector_pinch_only =
     detector_pinch_and_fist\<lparr> frameCount := 3, fistHoldStart_right := None,
                              fistActive_right := False \<rparr>"

text \<open>Two hands pinching at once, the left one first in the arrays.\<close>

definition both_pinching :: results where
  "both_pinching =
     \<lparr> multiHandLandmarks = Some [sample_pinch, sample_pinch_other],
       multiHandedness = Some [hand_of Left, hand_of Right] \<rparr>"

definition detector_both_holding :: detector where
  "detector_both_holding = detector_holding\<lparr> fistHoldStart_right := None \<rparr>"

definition detector_both_pinching :: detector where
  "detector_both_pinching =
     detector_both_holding\<lparr> frameCount := 2, pinchActive := True,
                             pinchPosition := Some (pt 0.21 0.7), pinchHand := Some Right,
                             pinchActiveConfirmed := True \<rparr>"

definition event_both_pinching :: gesture_event where
  "event_both_pinching =
     \<lparr> handsDetected = 2, leftRotation = 0, rightRotation = 0, event_fps = 0,
       pinch = \<lparr> active = True, pinch_position = Some (pt 0.21 0.7), pinch_hand = Some Right \<rparr> \<rparr>"

text \<open>A frame without hands.\<close>

definition no_hands :: results where
  "no_hands = \<lparr> multiHandLandmarks = Some [], multiHandedness = Some [] \<rparr>"

text \<open>
  A hand whose middle fingertip is straight below the wrist, and one whose fingertip is
  below and to the left of it.
\<close>

definition sample_pointing_down :: landmarks where
  "sample_pointing_down = (replicate 21 (pt 0.5 0.5))[12 := pt 0.5 0.8]"

definition sample_down_left :: landmarks where
  "sample_down_left = (replicate 21 (pt 0.5 0.5))[12 := pt 0.4 0.6]"

text \<open>An overlay on a window of 1000 by 1000 pixels, not rotated.\<close>

definition blank_overlay :: overlay where
  "blank_overlay =
     \<lparr> canvas_width = 0, canvas_height = 0, centerX = 0, centerY = 0,
       minDim = 0, rotationOffset = 0 \<rparr>"

definition sample_overlay :: overlay where
  "sample_overlay = resize 1000 1000 blank_overlay"

text \<open>
  Pinch positions straight above the centre of that overlay: at the centre, in the minor
  ring, in the major ring, and outside the wheel.
\<close>

definition at_center :: point where
  "at_center = pt 0.5 0.5"

definition in_minor_ring :: point where
  "in_minor_ring = pt 0.5 0.3"

definition in_major_ring :: point where
  "in_major_ring = pt 0.5 0.1"

definition outside_wheel :: point where
  "outside_wheel = pt 0.5 0.05"

text \<open>An engine whose initialization has completed with nothing queued.\<close>

definition ready_engine :: engine where
  "ready_engine = fst (doInit_afterReverb (doInit_afterStart (init new_engine)))"

section \<open>Properties of the gesture state machine\<close>


lemma countFolded_ok:
  "list_all (\<lambda>(t, m). t < length lm \<and> m < length lm) ps \<Longrightarrow> \<exists>k. countFolded lm ps n = Inr k"
  by (induction ps arbitrary: n) auto

lemma isFist_ok: "21 \<le> length lm \<Longrightarrow> \<exists>b. isFist lm = Inr b"
proof -
  assume "21 \<le> length lm"
  then have "list_all (\<lambda>(t, m). t < length lm \<and> m < length lm) (zip fingerTips fingerMCPs)"
    by (simp add: fingerTips_def fingerMCPs_def)
  from countFolded_ok[OF this] obtain k where "countFolded lm (zip fingerTips fingerMCPs) 0 = Inr k"
    by blast
  then show ?thesis by (simp add: isFist_def)
qed

lemma isPinch_ok: "21 \<le> length lm \<Longrightarrow> \<exists>b. isPinch lm = Inr b"
  using isFist_ok[of lm] by (auto simp: isPinch_def)

lemma isPinch_not_fist: "isPinch lm = Inr True \<Longrightarrow> isFist lm = Inr False"
  by (auto simp: isPinch_def split: if_splits sum.splits)

lemma rotation_ok: "21 \<le> length lm \<Longrightarrow> \<exists>r. calculateHandRotation lm = Inr r"
  by (simp add: calculateHandRotation_def)

lemma position_ok: "21 \<le> length lm \<Longrightarrow> \<exists>p. getPinchPosition lm = Inr p"
  by (simp add: getPinchPosition_def)

text \<open>One hand of 21 landmarks: what the callback does to the detector and the locals.\<close>

lemma handBody_wf:
  assumes "21 \<le> length lm"
  shows "\<exists>d' f'. handBody h lm (d, f) = Inr (d', f') \<and>
     d' = d\<lparr> hand1Rotation := (case fistRotationIn Left [(h, lm)] of None \<Rightarrow> hand1Rotation d | Some r \<Rightarrow> r),
              hand2Rotation := (case fistRotationIn Right [(h, lm)] of None \<Rightarrow> hand2Rotation d | Some r \<Rightarrow> r) \<rparr> \<and>
     leftFistDetected f' = (leftFistDetected f \<or> fistOn Left (h, lm)) \<and>
     rightFistDetected f' = (rightFistDetected f \<or> fistOn Right (h, lm)) \<and>
     pinchDetected f' = (pinchDetected f \<or> pinching (h, lm)) \<and>
     pinchData f' = (case pinchCandidateIn [(h, lm)] of None \<Rightarrow> pinchData f | Some pd \<Rightarrow> Some pd)"
proof -
  obtain r where r: "calculateHandRotation lm = Inr r" using rotation_ok[OF assms] by blast
  obtain b where b: "isFist lm = Inr b" using isFist_ok[OF assms] by blast
  obtain c where c: "isPinch lm = Inr c" using isPinch_ok[OF assms] by blast
  obtain p where p: "getPinchPosition lm = Inr p" using position_ok[OF assms] by blast
  have nb: "c \<Longrightarrow> \<not> b" using isPinch_not_fist[of lm] b c by simp
  show ?thesis
    using nb by (cases "label h"; cases b; cases c)
      (simp_all add: handBody_def r b c p fistRotationIn_def pinchCandidateIn_def fistOn_def pinching_def)
qed

lemma countFolded_Inr_bounds:
  "countFolded lm ps n = Inr k \<Longrightarrow> list_all (\<lambda>(t, m). t < length lm \<and> m < length lm) ps"
  by (induction ps arbitrary: n) (auto split: if_splits)

lemma isFist_Inr_length: "isFist lm = Inr b \<Longrightarrow> 21 \<le> length lm"
proof -
  assume "isFist lm = Inr b"
  then obtain k where "countFolded lm (zip fingerTips fingerMCPs) 0 = Inr k"
    by (auto simp: isFist_def split: sum.splits)
  from countFolded_Inr_bounds[OF this] show ?thesis
    by (simp add: fingerTips_def fingerMCPs_def)
qed

lemma pinching_length: "pinching hl \<Longrightarrow> 21 \<le> length (snd hl)"
  unfolding pinching_def using isPinch_not_fist isFist_Inr_length by blast

lemma fistOn_length: "fistOn side hl \<Longrightarrow> 21 \<le> length (snd hl)"
  unfolding fistOn_def using isFist_Inr_length by blast

lemma fistRotationIn_None: "fistRotationIn side hls = None \<longleftrightarrow> \<not> list_ex (fistOn side) hls"
proof (cases "filter (fistOn side) hls")
  case Nil
  then show ?thesis by (auto simp: fistRotationIn_def list_ex_iff filter_empty_conv)
next
  case (Cons hl rest)
  then have "last (hl # rest) \<in> set (filter (fistOn side) hls)"
    by (metis last_in_set list.distinct(1))
  then have "fistOn side (last (hl # rest))" by simp
  from rotation_ok[OF fistOn_length[OF this]] Cons show ?thesis
    by (auto simp: fistRotationIn_def list_ex_iff filter_empty_conv)
qed

lemma pinchCandidateIn_None: "pinchCandidateIn hls = None \<longleftrightarrow> \<not> list_ex pinching hls"
proof (cases "filter pinching hls")
  case Nil
  then show ?thesis by (auto simp: pinchCandidateIn_def list_ex_iff filter_empty_conv)
next
  case (Cons hl rest)
  then have "last (hl # rest) \<in> set (filter pinching hls)"
    by (metis last_in_set list.distinct(1))
  then have "pinching (last (hl # rest))" by simp
  from position_ok[OF pinching_length[OF this]] Cons show ?thesis
    by (auto simp: pinchCandidateIn_def list_ex_iff filter_empty_conv)
qed

lemma fistRotationIn_Cons:
  "fistRotationIn side (hl # hls) =
     (case fistRotationIn side hls of None \<Rightarrow> fistRotationIn side [hl] | Some r \<Rightarrow> Some r)"
proof (cases "filter (fistOn side) hls")
  case Nil
  then show ?thesis by (simp add: fistRotationIn_def)
next
  case (Cons a rest)
  then have "a \<in> set (filter (fistOn side) hls)" by simp
  then have "fistRotationIn side hls \<noteq> None"
    by (auto simp: fistRotationIn_None list_ex_iff)
  moreover have "fistRotationIn side (hl # hls) = fistRotationIn side hls"
    using Cons by (simp add: fistRotationIn_def)
  ultimately show ?thesis by auto
qed

lemma pinchCandidateIn_Cons:
  "pinchCandidateIn (hl # hls) =
     (case pinchCandidateIn hls of None \<Rightarrow> pinchCandidateIn [hl] | Some pd \<Rightarrow> Some pd)"
proof (cases "filter pinching hls")
  case Nil
  then show ?thesis by (simp add: pinchCandidateIn_def)
next
  case (Cons a rest)
  then have "a \<in> set (filter pinching hls)" by simp
  then have "pinchCandidateIn hls \<noteq> None"
    by (auto simp: pinchCandidateIn_None list_ex_iff)
  moreover have "pinchCandidateIn (hl # hls) = pinchCandidateIn hls"
    using Cons by (simp add: pinchCandidateIn_def split: sum.splits)
  ultimately show ?thesis by auto
qed

text \<open>The whole loop over the hands of a well-formed frame.\<close>

lemma forEachHand_wf:
  assumes "length hs \<le> length lms" and "list_all (\<lambda>lm. 21 \<le> length lm) (take (length hs) lms)"
  shows "\<exists>d' f'. forEachHand hs lms (d, f) = Inr (d', f') \<and>
     d' = d\<lparr> hand1Rotation := (case fistRotationIn Left (zip hs lms) of None \<Rightarrow> hand1Rotation d | Some r \<Rightarrow> r),
              hand2Rotation := (case fistRotationIn Right (zip hs lms) of None \<Rightarrow> hand2Rotation d | Some r \<Rightarrow> r) \<rparr> \<and>
     leftFistDetected f' = (leftFistDetected f \<or> list_ex (fistOn Left) (zip hs lms)) \<and>
     rightFistDetected f' = (rightFistDetected f \<or> list_ex (fistOn Right) (zip hs lms)) \<and>
     pinchDetected f' = (pinchDetected f \<or> list_ex pinching (zip hs lms)) \<and>
     pinchData f' = (case pinchCandidateIn (zip hs lms) of None \<Rightarrow> pinchData f | Some pd \<Rightarrow> Some pd)"
  using assms
proof (induction hs lms "(d, f)" arbitrary: d f rule: forEachHand.induct)
  case (1 lms)
  show ?case by (simp add: fistRotationIn_def pinchCandidateIn_def)
next
  case (2 h hs)
  then show ?case by simp
next
  case (3 h hs lm lms)
  from "3.prems" have len: "21 \<le> length lm" by simp
  from handBody_wf[OF len, of h d f] obtain d1 f1 where
    hb: "handBody h lm (d, f) = Inr (d1, f1)"
    and d1: "d1 = d\<lparr> hand1Rotation := (case fistRotationIn Left [(h, lm)] of None \<Rightarrow> hand1Rotation d | Some r \<Rightarrow> r),
              hand2Rotation := (case fistRotationIn Right [(h, lm)] of None \<Rightarrow> hand2Rotation d | Some r \<Rightarrow> r) \<rparr>"
    and f1: "leftFistDetected f1 = (leftFistDetected f \<or> fistOn Left (h, lm))"
       "rightFistDetected f1 = (rightFistDetected f \<or> fistOn Right (h, lm))"
       "pinchDetected f1 = (pinchDetected f \<or> pinching (h, lm))"
       "pinchData f1 = (case pinchCandidateIn [(h, lm)] of None \<Rightarrow> pinchData f | Some pd \<Rightarrow> Some pd)"
    by blast
  from "3.prems" have "length hs \<le> length lms" "list_all (\<lambda>lm. 21 \<le> length lm) (take (length hs) lms)"
    by simp_all
  from "3.hyps"[OF hb this] obtain d' f' where
    fe: "forEachHand hs lms (d1, f1) = Inr (d', f')"
    and d': "d' = d1\<lparr> hand1Rotation := (case fistRotationIn Left (zip hs lms) of None \<Rightarrow> hand1Rotation d1 | Some r \<Rightarrow> r),
              hand2Rotation := (case fistRotationIn Right (zip hs lms) of None \<Rightarrow> hand2Rotation d1 | Some r \<Rightarrow> r) \<rparr>"
    and f': "leftFistDetected f' = (leftFistDetected f1 \<or> list_ex (fistOn Left) (zip hs lms))"
       "rightFistDetected f' = (rightFistDetected f1 \<or> list_ex (fistOn Right) (zip hs lms))"
       "pinchDetected f' = (pinchDetected f1 \<or> list_ex pinching (zip hs lms))"
       "pinchData f' = (case pinchCandidateIn (zip hs lms) of None \<Rightarrow> pinchData f1 | Some pd \<Rightarrow> Some pd)"
    by blast
  have "forEachHand (h # hs) (lm # lms) (d, f) = Inr (d', f')"
    using hb fe by simp
  moreover have "d' = d\<lparr> hand1Rotation := (case fistRotationIn Left (zip (h # hs) (lm # lms)) of None \<Rightarrow> hand1Rotation d | Some r \<Rightarrow> r),
              hand2Rotation := (case fistRotationIn Right (zip (h # hs) (lm # lms)) of None \<Rightarrow> hand2Rotation d | Some r \<Rightarrow> r) \<rparr>"
    unfolding d' d1 by (simp add: fistRotationIn_Cons[of _ "(h, lm)"] split: option.splits)
  moreover have "pinchData f' = (case pinchCandidateIn (zip (h # hs) (lm # lms)) of None \<Rightarrow> pinchData f | Some pd \<Rightarrow> Some pd)"
    unfolding f' f1 by (simp add: pinchCandidateIn_Cons[of "(h, lm)"] split: option.splits)
  ultimately show ?case using f' f1 by auto
qed

lemma frame_loop:
  assumes "wellFormed res"
  shows "\<exists>d1 f.
     (case (multiHandLandmarks res, multiHandedness res) of
        (Some lms, Some hs) \<Rightarrow> forEachHand hs lms (d, frame_start)
      | _ \<Rightarrow> Inr (d, frame_start)) = Inr (d1, f) \<and>
     d1 = d\<lparr> hand1Rotation := (case fistRotationIn Left (frameHands res) of None \<Rightarrow> hand1Rotation d | Some r \<Rightarrow> r),
              hand2Rotation := (case fistRotationIn Right (frameHands res) of None \<Rightarrow> hand2Rotation d | Some r \<Rightarrow> r) \<rparr> \<and>
     leftFistDetected f = rawPresent LeftFistSlot res \<and>
     rightFistDetected f = rawPresent RightFistSlot res \<and>
     pinchDetected f = rawPresent PinchSlot res \<and>
     pinchData f = pinchCandidateIn (frameHands res)"
proof (cases "multiHandLandmarks res")
  case None
  then show ?thesis
    by (simp add: frameHands_def frame_start_def fistRotationIn_def pinchCandidateIn_def)
next
  case lms: (Some lms)
  show ?thesis
  proof (cases "multiHandedness res")
    case None
    then show ?thesis using lms
      by (simp add: frameHands_def frame_start_def fistRotationIn_def pinchCandidateIn_def)
  next
    case hs: (Some hs)
    from assms lms hs have "length hs \<le> length lms"
      "list_all (\<lambda>lm. 21 \<le> length lm) (take (length hs) lms)"
      by (simp_all add: wellFormed_def)
    from forEachHand_wf[OF this, of d frame_start] show ?thesis
      using lms hs by (auto simp: frameHands_def frame_start_def split: option.splits)
  qed
qed

lemma processPinch_ok:
  assumes "pinchDetected f \<Longrightarrow> pinchData f \<noteq> None"
  shows "\<exists>d'. processPinch now f d = Inr d'"
proof (cases "pinchData f")
  case None
  with assms have "\<not> pinchDetected f" by auto
  then show ?thesis by (simp add: processPinch_def)
next
  case (Some pd)
  then show ?thesis by (simp add: processPinch_def Let_def)
qed

lemma getHandRotationAngle_wf:
  assumes "wellFormed res"
  shows "\<exists>d1 f d'. 
     d1 = d\<lparr> hand1Rotation := (case fistRotationIn Left (frameHands res) of None \<Rightarrow> hand1Rotation d | Some r \<Rightarrow> r),
              hand2Rotation := (case fistRotationIn Right (frameHands res) of None \<Rightarrow> hand2Rotation d | Some r \<Rightarrow> r) \<rparr> \<and>
     leftFistDetected f = rawPresent LeftFistSlot res \<and>
     rightFistDetected f = rawPresent RightFistSlot res \<and>
     pinchDetected f = rawPresent PinchSlot res \<and>
     pinchData f = pinchCandidateIn (frameHands res) \<and>
     processPinch now f (processRightFist now f (processLeftFist now f d1)) = Inr d' \<and>
     getHandRotationAngle now res d =
       Inr (d', \<lparr> left = lastLeftRotation d', right = lastRightRotation d' \<rparr>)"
proof -
  from frame_loop[OF assms, of d] obtain d1 f where
    loop: "(case (multiHandLandmarks res, multiHandedness res) of
        (Some lms, Some hs) \<Rightarrow> forEachHand hs lms (d, frame_start)
      | _ \<Rightarrow> Inr (d, frame_start)) = Inr (d1, f)"
    and d1: "d1 = d\<lparr> hand1Rotation := (case fistRotationIn Left (frameHands res) of None \<Rightarrow> hand1Rotation d | Some r \<Rightarrow> r),
              hand2Rotation := (case fistRotationIn Right (frameHands res) of None \<Rightarrow> hand2Rotation d | Some r \<Rightarrow> r) \<rparr>"
    and f: "leftFistDetected f = rawPresent LeftFistSlot res"
     "rightFistDetected f = rawPresent RightFistSlot res"
     "pinchDetected f = rawPresent PinchSlot res"
     "pinchData f = pinchCandidateIn (frameHands res)"
    by blast
  have "pinchDetected f \<Longrightarrow> pinchData f \<noteq> None"
    using f pinchCandidateIn_None[of "frameHands res"] by simp
  from processPinch_ok[OF this] obtain d' where
    pp: "processPinch now f (processRightFist now f (processLeftFist now f d1)) = Inr d'"
    by blast
  have "getHandRotationAngle now res d =
       Inr (d', \<lparr> left = lastLeftRotation d', right = lastRightRotation d' \<rparr>)"
    unfolding getHandRotationAngle_def loop using pp by simp
  with d1 f pp show ?thesis by blast
qed

text \<open>Each hold-to-activate block leaves the fields of the other two slots alone.\<close>

lemma processLeftFist_others:
  "fistHoldStart_right (processLeftFist now f d) = fistHoldStart_right d"
  "fistActive_right (processLeftFist now f d) = fistActive_right d"
  "lastRightRotation (processLeftFist now f d) = lastRightRotation d"
  "hand2Rotation (processLeftFist now f d) = hand2Rotation d"
  "hand1Rotation (processLeftFist now f d) = hand1Rotation d"
  "pinchHoldStart (processLeftFist now f d) = pinchHoldStart d"
  "pinchActiveConfirmed (processLeftFist now f d) = pinchActiveConfirmed d"
  "pinchActive (processLeftFist now f d) = pinchActive d"
  "pinchPosition (processLeftFist now f d) = pinchPosition d"
  "pinchHand (processLeftFist now f d) = pinchHand d"
  "isInitialized (processLeftFist now f d) = isInitialized d"
  "noDetectionCount (processLeftFist now f d) = noDetectionCount d"
  "maxNoDetection (processLeftFist now f d) = maxNoDetection d"
  "fps (processLeftFist now f d) = fps d"
  by (simp_all add: processLeftFist_def Let_def split: option.splits)

lemma processRightFist_others:
  "fistHoldStart_left (processRightFist now f d) = fistHoldStart_left d"
  "fistActive_left (processRightFist now f d) = fistActive_left d"
  "lastLeftRotation (processRightFist now f d) = lastLeftRotation d"
  "hand2Rotation (processRightFist now f d) = hand2Rotation d"
  "hand1Rotation (processRightFist now f d) = hand1Rotation d"
  "pinchHoldStart (processRightFist now f d) = pinchHoldStart d"
  "pinchActiveConfirmed (processRightFist now f d) = pinchActiveConfirmed d"
  "pinchActive (processRightFist now f d) = pinchActive d"
  "pinchPosition (processRightFist now f d) = pinchPosition d"
  "pinchHand (processRightFist now f d) = pinchHand d"
  "isInitialized (processRightFist now f d) = isInitialized d"
  "noDetectionCount (processRightFist now f d) = noDetectionCount d"
  "maxNoDetection (processRightFist now f d) = maxNoDetection d"
  "fps (processRightFist now f d) = fps d"
  by (simp_all add: processRightFist_def Let_def split: option.splits)

lemma processPinch_others:
  assumes "processPinch now f d = Inr d'"
  shows "fistHoldStart_left d' = fistHoldStart_left d"
    "fistActive_left d' = fistActive_left d"
    "lastLeftRotation d' = lastLeftRotation d"
    "fistHoldStart_right d' = fistHoldStart_right d"
    "fistActive_right d' = fistActive_right d"
    "lastRightRotation d' = lastRightRotation d"
    "hand1Rotation d' = hand1Rotation d"
    "hand2Rotation d' = hand2Rotation d"
    "isInitialized d' = isInitialized d"
    "noDetectionCount d' = noDetectionCount d"
    "maxNoDetection d' = maxNoDetection d"
    "fps d' = fps d"
  using assms by (auto simp: processPinch_def Let_def split: option.splits if_splits)

text \<open>The left fist block, as a transition of its slot.\<close>

lemma processLeftFist_slot:
  "fistHoldStart_left (processLeftFist now f d) =
     (if leftFistDetected f
      then Some (case fistHoldStart_left d of None \<Rightarrow> now | Some s \<Rightarrow> s) else None)"
  "fistActive_left (processLeftFist now f d) =
     (leftFistDetected f \<and>
      (case fistHoldStart_left d of
         None \<Rightarrow> fistActive_left d
       | Some s \<Rightarrow> fistActive_left d \<or> HOLD_DURATION_MS \<le> now - s))"
  "lastLeftRotation (processLeftFist now f d) =
     (if fistActive_left (processLeftFist now f d) then hand1Rotation d else lastLeftRotation d)"
  by (auto simp: processLeftFist_def Let_def split: option.splits)

lemma processRightFist_slot:
  "fistHoldStart_right (processRightFist now f d) =
     (if rightFistDetected f
      then Some (case fistHoldStart_right d of None \<Rightarrow> now | Some s \<Rightarrow> s) else None)"
  "fistActive_right (processRightFist now f d) =
     (rightFistDetected f \<and>
      (case fistHoldStart_right d of
         None \<Rightarrow> fistActive_right d
       | Some s \<Rightarrow> fistActive_right d \<or> HOLD_DURATION_MS \<le> now - s))"
  "lastRightRotation (processRightFist now f d) =
     (if fistActive_right (processRightFist now f d) then hand2Rotation d else lastRightRotation d)"
  by (auto simp: processRightFist_def Let_def split: option.splits)

lemma processPinch_slot:
  assumes "processPinch now f d = Inr d'"
  shows "pinchHoldStart d' =
     (if pinchDetected f
      then Some (case pinchHoldStart d of None \<Rightarrow> now | Some s \<Rightarrow> s) else None)"
  "pinchActiveConfirmed d' =
     (pinchDetected f \<and>
      (case pinchHoldStart d of
         None \<Rightarrow> False
       | Some s \<Rightarrow> pinchActiveConfirmed d \<or> HOLD_DURATION_MS \<le> now - s))"
  "pinchActive d' = pinchActiveConfirmed d'"
  "pinchPosition d' = (if pinchActiveConfirmed d' then map_option position (pinchData f) else None)"
  "pinchHand d' = (if pinchActiveConfirmed d' then map_option hand (pinchData f) else None)"
  using assms by (auto simp: processPinch_def Let_def split: option.splits if_splits)

text \<open>One processed frame, seen from one slot.\<close>

lemma onResults_slot:
  assumes wf: "wellFormed res" and init: "isInitialized d"
  shows "\<exists>d' ev rs. onResults now now' res d = Inr (d', Some ev, rs) \<and> isInitialized d' \<and>
     holdStart sl d' =
       (if rawPresent sl res
        then Some (case holdStart sl d of None \<Rightarrow> now' | Some s \<Rightarrow> s) else None) \<and>
     confirmed sl d' =
       (rawPresent sl res \<and>
        (case holdStart sl d of
           None \<Rightarrow> sl \<noteq> PinchSlot \<and> confirmed sl d
         | Some s \<Rightarrow> confirmed sl d \<or> HOLD_DURATION_MS \<le> now' - s)) \<and>
     (if confirmed sl d' then Some (publishedBy sl d') = frameValue sl res
      else publishedBy sl d' = (if sl = PinchSlot then PinchOff else publishedBy sl d)) \<and>
     leftRotation ev = lastLeftRotation d' \<and> rightRotation ev = lastRightRotation d' \<and>
     pinch ev = \<lparr> active = pinchActive d', pinch_position = pinchPosition d',
                  pinch_hand = pinchHand d' \<rparr>"
proof -
  define d2 where "d2 =
    (if now - lastFrameTime (d\<lparr> frameCount := frameCount d + 1 \<rparr>) \<ge> 1000
     then d\<lparr> frameCount := frameCount d + 1 \<rparr>
            \<lparr> fps := frameCount (d\<lparr> frameCount := frameCount d + 1 \<rparr>),
              frameCount := 0, lastFrameTime := now \<rparr>
     else d\<lparr> frameCount := frameCount d + 1 \<rparr>)"
  have d2: "fistHoldStart_left d2 = fistHoldStart_left d" "fistActive_left d2 = fistActive_left d"
    "lastLeftRotation d2 = lastLeftRotation d"
    "fistHoldStart_right d2 = fistHoldStart_right d" "fistActive_right d2 = fistActive_right d"
    "lastRightRotation d2 = lastRightRotation d"
    "pinchHoldStart d2 = pinchHoldStart d" "pinchActiveConfirmed d2 = pinchActiveConfirmed d"
    "pinchActive d2 = pinchActive d" "pinchPosition d2 = pinchPosition d"
    "pinchHand d2 = pinchHand d" "isInitialized d2 = isInitialized d"
    by (simp_all add: d2_def)
  from getHandRotationAngle_wf[OF wf, of d2 now'] obtain d1 f dp where
    d1: "d1 = d2\<lparr> hand1Rotation := (case fistRotationIn Left (frameHands res) of None \<Rightarrow> hand1Rotation d2 | Some r \<Rightarrow> r),
              hand2Rotation := (case fistRotationIn Right (frameHands res) of None \<Rightarrow> hand2Rotation d2 | Some r \<Rightarrow> r) \<rparr>"
    and f: "leftFistDetected f = rawPresent LeftFistSlot res"
     "rightFistDetected f = rawPresent RightFistSlot res"
     "pinchDetected f = rawPresent PinchSlot res"
     "pinchData f = pinchCandidateIn (frameHands res)"
    and pp: "processPinch now' f (processRightFist now' f (processLeftFist now' f d1)) = Inr dp"
    and g: "getHandRotationAngle now' res d2 =
       Inr (dp, \<lparr> left = lastLeftRotation dp, right = lastRightRotation dp \<rparr>)"
    by blast
  define n where "n = (case multiHandLandmarks res of None \<Rightarrow> 0 | Some lms \<Rightarrow> length lms)"
  define d4 where "d4 = dp\<lparr> hand1Rotation := lastLeftRotation dp, hand2Rotation := lastRightRotation dp \<rparr>"
  define d5 where "d5 = (if n = 0 then d4\<lparr> noDetectionCount := noDetectionCount d4 + 1 \<rparr>
                         else d4\<lparr> noDetectionCount := 0 \<rparr>)"
  have run: "onResults now now' res d =
     Inr (d5, Some \<lparr> handsDetected = n, leftRotation = hand1Rotation d5,
                     rightRotation = hand2Rotation d5, event_fps = fps d5,
                     pinch = \<lparr> active = pinchActive d5, pinch_position = pinchPosition d5,
                               pinch_hand = pinchHand d5 \<rparr> \<rparr>,
          n = 0 \<and> noDetectionCount d5 \<ge> maxNoDetection d5)"
    using init g unfolding onResults_def Let_def d2_def[symmetric]
    by (simp add: d5_def d4_def n_def)
  have d5: "fistHoldStart_left d5 = fistHoldStart_left dp" "fistActive_left d5 = fistActive_left dp"
    "lastLeftRotation d5 = lastLeftRotation dp"
    "fistHoldStart_right d5 = fistHoldStart_right dp" "fistActive_right d5 = fistActive_right dp"
    "lastRightRotation d5 = lastRightRotation dp"
    "pinchHoldStart d5 = pinchHoldStart dp" "pinchActiveConfirmed d5 = pinchActiveConfirmed dp"
    "pinchActive d5 = pinchActive dp" "pinchPosition d5 = pinchPosition dp"
    "pinchHand d5 = pinchHand dp" "isInitialized d5 = isInitialized dp"
    "hand1Rotation d5 = lastLeftRotation dp" "hand2Rotation d5 = lastRightRotation dp"
    by (simp_all add: d5_def d4_def)
  have d1f: "fistHoldStart_left d1 = fistHoldStart_left d" "fistActive_left d1 = fistActive_left d"
    "lastLeftRotation d1 = lastLeftRotation d"
    "fistHoldStart_right d1 = fistHoldStart_right d" "fistActive_right d1 = fistActive_right d"
    "lastRightRotation d1 = lastRightRotation d"
    "pinchHoldStart d1 = pinchHoldStart d" "pinchActiveConfirmed d1 = pinchActiveConfirmed d"
    "isInitialized d1 = isInitialized d"
    "hand1Rotation d1 = (case fistRotationIn Left (frameHands res) of None \<Rightarrow> hand1Rotation d2 | Some r \<Rightarrow> r)"
    "hand2Rotation d1 = (case fistRotationIn Right (frameHands res) of None \<Rightarrow> hand2Rotation d2 | Some r \<Rightarrow> r)"
    by (simp_all add: d1 d2)
  note others = processPinch_others[OF pp] processRightFist_others processLeftFist_others
  have initd5: "isInitialized d5" using init by (simp add: d5 others d1f)
  have slotfacts: "holdStart sl d5 =
       (if rawPresent sl res
        then Some (case holdStart sl d of None \<Rightarrow> now' | Some s \<Rightarrow> s) else None) \<and>
     confirmed sl d5 =
       (rawPresent sl res \<and>
        (case holdStart sl d of
           None \<Rightarrow> sl \<noteq> PinchSlot \<and> confirmed sl d
         | Some s \<Rightarrow> confirmed sl d \<or> HOLD_DURATION_MS \<le> now' - s)) \<and>
     (if confirmed sl d5 then Some (publishedBy sl d5) = frameValue sl res
      else publishedBy sl d5 = (if sl = PinchSlot then PinchOff else publishedBy sl d))"
  proof (cases sl)
    case LeftFistSlot
    have "rawPresent LeftFistSlot res \<Longrightarrow> \<exists>r. fistRotationIn Left (frameHands res) = Some r"
      using fistRotationIn_None[of Left "frameHands res"] by auto
    then show ?thesis unfolding LeftFistSlot
      by (auto simp: d5 others processLeftFist_slot d1f f split: option.splits)
  next
    case RightFistSlot
    have "rawPresent RightFistSlot res \<Longrightarrow> \<exists>r. fistRotationIn Right (frameHands res) = Some r"
      using fistRotationIn_None[of Right "frameHands res"] by auto
    then show ?thesis unfolding RightFistSlot
      by (auto simp: d5 others processRightFist_slot d1f f split: option.splits)
  next
    case PinchSlot
    have "rawPresent PinchSlot res \<Longrightarrow> \<exists>pd. pinchCandidateIn (frameHands res) = Some pd"
      using pinchCandidateIn_None[of "frameHands res"] by auto
    then show ?thesis unfolding PinchSlot
      by (auto simp: d5 others processPinch_slot[OF pp] d1f f split: option.splits)
  qed
  show ?thesis
    using run initd5 slotfacts by (simp add: d5)
qed

text \<open>A run of frames that all show the raw gesture, entered with the timer running.\<close>

lemma run_holding:
  assumes "isInitialized d" and "holdStart sl d = Some t0"
    and "confirmed sl d \<longrightarrow> (\<forall>fr \<in> set frames. HOLD_DURATION_MS \<le> clock' fr - t0)"
    and "\<forall>fr \<in> set frames. wellFormed (frame_results fr) \<and> rawPresent sl (frame_results fr)"
    and "sorted (map clock' frames)"
  shows "\<exists>d'. runFrames frames d = Inr d' \<and> isInitialized d' \<and> holdStart sl d' = Some t0 \<and>
     (frames \<noteq> [] \<longrightarrow>
        (confirmed sl d' \<longleftrightarrow> HOLD_DURATION_MS \<le> clock' (last frames) - t0) \<and>
        (if confirmed sl d'
         then Some (publishedBy sl d') = frameValue sl (frame_results (last frames))
         else publishedBy sl d' = (if sl = PinchSlot then PinchOff else publishedBy sl d)))"
  using assms
proof (induction frames arbitrary: d)
  case Nil
  then show ?case by simp
next
  case (Cons fr frs)
  from Cons.prems(4) have wf: "wellFormed (frame_results fr)" and raw: "rawPresent sl (frame_results fr)"
    by simp_all
  from onResults_slot[OF wf Cons.prems(1), of "clock fr" "clock' fr" sl] obtain d1 ev rs where
    step: "onResults (clock fr) (clock' fr) (frame_results fr) d = Inr (d1, Some ev, rs)"
    and i1: "isInitialized d1"
    and h0: "holdStart sl d1 =
       (if rawPresent sl (frame_results fr)
        then Some (case holdStart sl d of None \<Rightarrow> clock' fr | Some s \<Rightarrow> s) else None)"
    and c0: "confirmed sl d1 =
       (rawPresent sl (frame_results fr) \<and>
        (case holdStart sl d of
           None \<Rightarrow> sl \<noteq> PinchSlot \<and> confirmed sl d
         | Some s \<Rightarrow> confirmed sl d \<or> HOLD_DURATION_MS \<le> clock' fr - s))"
    and p1: "if confirmed sl d1 then Some (publishedBy sl d1) = frameValue sl (frame_results fr)
      else publishedBy sl d1 = (if sl = PinchSlot then PinchOff else publishedBy sl d)"
    by blast
  have h1: "holdStart sl d1 = Some t0" using h0 raw Cons.prems(2) by simp
  have c1: "confirmed sl d1 \<longleftrightarrow> confirmed sl d \<or> HOLD_DURATION_MS \<le> clock' fr - t0"
    using c0 raw Cons.prems(2) by simp
  have c1': "confirmed sl d1 \<longleftrightarrow> HOLD_DURATION_MS \<le> clock' fr - t0"
    using c1 Cons.prems(3) by auto
  have later: "\<forall>fr' \<in> set frs. clock' fr \<le> clock' fr'"
    using Cons.prems(5) by simp
  have inv1: "confirmed sl d1 \<longrightarrow> (\<forall>fr' \<in> set frs. HOLD_DURATION_MS \<le> clock' fr' - t0)"
    using c1' later by fastforce
  have rest: "\<forall>fr \<in> set frs. wellFormed (frame_results fr) \<and> rawPresent sl (frame_results fr)"
    using Cons.prems(4) by simp
  have srt: "sorted (map clock' frs)" using Cons.prems(5) by simp
  from Cons.IH[OF i1 h1 inv1 rest srt] obtain d' where
    run: "runFrames frs d1 = Inr d'" and i': "isInitialized d'" and h': "holdStart sl d' = Some t0"
    and tail: "frs \<noteq> [] \<longrightarrow>
        (confirmed sl d' \<longleftrightarrow> HOLD_DURATION_MS \<le> clock' (last frs) - t0) \<and>
        (if confirmed sl d'
         then Some (publishedBy sl d') = frameValue sl (frame_results (last frs))
         else publishedBy sl d' = (if sl = PinchSlot then PinchOff else publishedBy sl d1))"
    by blast
  have whole: "runFrames (fr # frs) d = Inr d'" using step run by simp
  show ?case
  proof (cases "frs = []")
    case True
    then have "d' = d1" using run by simp
    then show ?thesis using whole i' h' c1' p1 True by auto
  next
    case False
    then have lastin: "last frs \<in> set frs" by simp
    have "\<not> confirmed sl d' \<Longrightarrow> \<not> confirmed sl d1"
      using tail False inv1 lastin by auto
    then have "\<not> confirmed sl d' \<Longrightarrow>
        (if sl = PinchSlot then PinchOff else publishedBy sl d1) =
        (if sl = PinchSlot then PinchOff else publishedBy sl d)"
      using p1 by auto
    then show ?thesis using whole i' h' tail False by auto
  qed
qed

text \<open>The same run entered from the idle slot: the timer starts at the first frame.\<close>

lemma run_from_idle:
  assumes "isInitialized d" and "holdStart sl d = None" and "\<not> confirmed sl d"
    and "frames \<noteq> []"
    and "\<forall>fr \<in> set frames. wellFormed (frame_results fr) \<and> rawPresent sl (frame_results fr)"
    and "sorted (map clock' frames)"
  shows "\<exists>d'. runFrames frames d = Inr d' \<and> isInitialized d' \<and>
     holdStart sl d' = Some (clock' (hd frames)) \<and>
     (confirmed sl d' \<longleftrightarrow> HOLD_DURATION_MS \<le> clock' (last frames) - clock' (hd frames)) \<and>
     (if confirmed sl d'
      then Some (publishedBy sl d') = frameValue sl (frame_results (last frames))
      else publishedBy sl d' = (if sl = PinchSlot then PinchOff else publishedBy sl d))"
proof -
  from assms(4) obtain fr frs where frames: "frames = fr # frs" by (cases frames) auto
  from assms(5) frames have wf: "wellFormed (frame_results fr)" and raw: "rawPresent sl (frame_results fr)"
    by simp_all
  from onResults_slot[OF wf assms(1), of "clock fr" "clock' fr" sl] obtain d1 ev rs where
    step: "onResults (clock fr) (clock' fr) (frame_results fr) d = Inr (d1, Some ev, rs)"
    and i1: "isInitialized d1"
    and h0: "holdStart sl d1 =
       (if rawPresent sl (frame_results fr)
        then Some (case holdStart sl d of None \<Rightarrow> clock' fr | Some s \<Rightarrow> s) else None)"
    and c0: "confirmed sl d1 =
       (rawPresent sl (frame_results fr) \<and>
        (case holdStart sl d of
           None \<Rightarrow> sl \<noteq> PinchSlot \<and> confirmed sl d
         | Some s \<Rightarrow> confirmed sl d \<or> HOLD_DURATION_MS \<le> clock' fr - s))"
    and p0: "if confirmed sl d1 then Some (publishedBy sl d1) = frameValue sl (frame_results fr)
      else publishedBy sl d1 = (if sl = PinchSlot then PinchOff else publishedBy sl d)"
    by blast
  have h1: "holdStart sl d1 = Some (clock' fr)" using h0 raw assms(2) by simp
  have c1: "\<not> confirmed sl d1" using c0 assms(2,3) by simp
  have p1: "publishedBy sl d1 = (if sl = PinchSlot then PinchOff else publishedBy sl d)"
    using p0 c1 by simp
  have rest: "\<forall>fr \<in> set frs. wellFormed (frame_results fr) \<and> rawPresent sl (frame_results fr)"
    using assms(5) frames by simp
  have srt: "sorted (map clock' frs)" using assms(6) frames by simp
  from run_holding[OF i1 h1 _ rest srt] c1 obtain d' where
    run: "runFrames frs d1 = Inr d'" and i': "isInitialized d'"
    and h': "holdStart sl d' = Some (clock' fr)"
    and tail: "frs \<noteq> [] \<longrightarrow>
        (confirmed sl d' \<longleftrightarrow> HOLD_DURATION_MS \<le> clock' (last frs) - clock' fr) \<and>
        (if confirmed sl d'
         then Some (publishedBy sl d') = frameValue sl (frame_results (last frs))
         else publishedBy sl d' = (if sl = PinchSlot then PinchOff else publishedBy sl d1))"
    by blast
  have whole: "runFrames frames d = Inr d'" using step run frames by simp
  show ?thesis
  proof (cases "frs = []")
    case True
    then have "d' = d1" using run by simp
    then show ?thesis using whole i' h' c1 p1 True frames by (auto simp: HOLD_DURATION_MS_def)
  next
    case False
    then show ?thesis using whole i' h' tail p1 frames by auto
  qed
qed


subsection \<open>The sample inputs, classified\<close>


lemma sqrt_less_iff_sq: "0 \<le> c \<Longrightarrow> sqrt a < c \<longleftrightarrow> a < c * c"
proof -
  assume c: "0 \<le> c"
  have "sqrt a < c \<longleftrightarrow> sqrt a < sqrt (c * c)" using c by simp
  also have "\<dots> \<longleftrightarrow> a < c * c" by (rule real_sqrt_less_iff)
  finally show ?thesis .
qed

lemma atan2_diag: "0 < a \<Longrightarrow> atan2 (- a) a = - (pi / 4)"
  by (simp add: atan2_def arctan_minus arctan_one)

lemma atan2_right: "0 < a \<Longrightarrow> atan2 0 a = 0"
  by (simp add: atan2_def)

lemma sample_fist_class:
  "calculateHandRotation sample_fist = Inr 45"
  "isFist sample_fist = Inr True"
  "isPinch sample_fist = Inr False"
proof -
  have "rawAngle sample_fist = 45"
    using atan2_diag[of "0.1"] by (simp add: rawAngle_def sample_fist_def pt_def)
  then show "calculateHandRotation sample_fist = Inr 45"
    by (simp add: calculateHandRotation_def normalizeAngle_def sample_fist_def)
  show "isFist sample_fist = Inr True"
    by (simp add: isFist_def fingerTips_def fingerMCPs_def sample_fist_def pt_def)
  show "isPinch sample_fist = Inr False"
    by (simp add: isPinch_def pinchDistance_def PINCH_THRESHOLD_def sqrt_less_iff_sq sample_fist_def pt_def)
qed

lemma sample_fist_turned_class:
  "calculateHandRotation sample_fist_turned = Inr 90"
  "isFist sample_fist_turned = Inr True"
  "isPinch sample_fist_turned = Inr False"
proof -
  have "rawAngle sample_fist_turned = 90"
    using atan2_right[of "0.1"] by (simp add: rawAngle_def sample_fist_turned_def sample_fist_def pt_def)
  then show "calculateHandRotation sample_fist_turned = Inr 90"
    by (simp add: calculateHandRotation_def normalizeAngle_def sample_fist_turned_def sample_fist_def)
  show "isFist sample_fist_turned = Inr True"
    by (simp add: isFist_def fingerTips_def fingerMCPs_def sample_fist_turned_def sample_fist_def pt_def)
  show "isPinch sample_fist_turned = Inr False"
    by (simp add: isPinch_def pinchDistance_def PINCH_THRESHOLD_def sqrt_less_iff_sq sample_fist_turned_def sample_fist_def pt_def)
qed

lemma sample_pinch_class:
  "calculateHandRotation sample_pinch = Inr 90"
  "isFist sample_pinch = Inr False"
  "isPinch sample_pinch = Inr True"
  "getPinchPosition sample_pinch = Inr (pt 0.61 0.3)"
proof -
  have "rawAngle sample_pinch = 90"
    by (simp add: rawAngle_def sample_pinch_def pt_def atan2_def)
  then show "calculateHandRotation sample_pinch = Inr 90"
    by (simp add: calculateHandRotation_def normalizeAngle_def sample_pinch_def)
  show f: "isFist sample_pinch = Inr False"
    by (simp add: isFist_def fingerTips_def fingerMCPs_def sample_pinch_def pt_def)
  show "isPinch sample_pinch = Inr True"
    by (simp add: isPinch_def f) (simp add: pinchDistance_def PINCH_THRESHOLD_def sqrt_less_iff_sq sample_pinch_def pt_def)
  show "getPinchPosition sample_pinch = Inr (pt 0.61 0.3)"
    by (simp add: getPinchPosition_def sample_pinch_def pt_def)
qed


subsection \<open>The sample frames, evaluated\<close>


lemmas frame_eval =
  onResults_def getHandRotationAngle_def handBody_def processLeftFist_def processRightFist_def
  processPinch_def frame_start_def HOLD_DURATION_MS_def hand_of_def

lemma sample_pinch_other_class:
  "calculateHandRotation sample_pinch_other = Inr 90"
  "isFist sample_pinch_other = Inr False"
  "isPinch sample_pinch_other = Inr True"
  "getPinchPosition sample_pinch_other = Inr (pt 0.21 0.7)"
proof -
  have "rawAngle sample_pinch_other = 90"
    by (simp add: rawAngle_def sample_pinch_other_def pt_def atan2_def)
  then show "calculateHandRotation sample_pinch_other = Inr 90"
    by (simp add: calculateHandRotation_def normalizeAngle_def sample_pinch_other_def)
  show f: "isFist sample_pinch_other = Inr False"
    by (simp add: isFist_def fingerTips_def fingerMCPs_def sample_pinch_other_def pt_def)
  show "isPinch sample_pinch_other = Inr True"
    by (simp add: isPinch_def f)
      (simp add: pinchDistance_def PINCH_THRESHOLD_def sqrt_less_iff_sq sample_pinch_other_def pt_def)
  show "getPinchPosition sample_pinch_other = Inr (pt 0.21 0.7)"
    by (simp add: getPinchPosition_def sample_pinch_other_def pt_def)
qed

lemma eval_pinch_and_fist_0:
  "onResults 0 0 pinch_and_fist started_detector = Inr (detector_holding, Some event_holding, False)"
  by (simp add: frame_eval pinch_and_fist_def started_detector_def new_detector_def
      sample_fist_class sample_pinch_class detector_holding_def event_holding_def pt_def)

lemma eval_pinch_and_fist_500:
  "onResults 500 500 pinch_and_fist detector_holding =
     Inr (detector_pinch_and_fist, Some event_pinch_and_fist, False)"
  by (simp add: frame_eval pinch_and_fist_def sample_fist_class sample_pinch_class
      detector_holding_def detector_pinch_and_fist_def event_pinch_and_fist_def pt_def)

lemma eval_pinch_only_600:
  "onResults 600 600 pinch_only detector_pinch_and_fist =
     Inr (detector_pinch_only, Some (event_pinch_and_fist\<lparr> handsDetected := 1 \<rparr>), False)"
  by (simp add: frame_eval pinch_only_def sample_pinch_class detector_pinch_only_def
      detector_pinch_and_fist_def event_pinch_and_fist_def pt_def)

lemma eval_both_pinching_0:
  "onResults 0 0 both_pinching started_detector =
     Inr (detector_both_holding, Some event_holding, False)"
  by (simp add: frame_eval both_pinching_def started_detector_def new_detector_def
      sample_pinch_class sample_pinch_other_class detector_both_holding_def detector_holding_def
      event_holding_def pt_def)

lemma eval_both_pinching_500:
  "onResults 500 500 both_pinching detector_both_holding =
     Inr (detector_both_pinching, Some event_both_pinching, False)"
  by (simp add: frame_eval both_pinching_def sample_pinch_class sample_pinch_other_class
      detector_both_holding_def detector_holding_def detector_both_pinching_def
      event_both_pinching_def pt_def)

lemma wellFormed_samples:
  "wellFormed pinch_and_fist" "wellFormed pinch_only" "wellFormed both_pinching" "wellFormed no_hands"
  by (simp_all add: wellFormed_def pinch_and_fist_def pinch_only_def both_pinching_def no_hands_def
      sample_pinch_def sample_pinch_other_def sample_fist_def)

lemma raw_samples:
  "rawPresent PinchSlot pinch_and_fist" "rawPresent RightFistSlot pinch_and_fist"
  "\<not> rawPresent LeftFistSlot pinch_and_fist"
  "rawPresent PinchSlot pinch_only" "\<not> rawPresent RightFistSlot pinch_only"
  "\<not> rawPresent LeftFistSlot pinch_only"
  "\<not> rawPresent sl no_hands"
  by (cases sl; simp add: frameHands_def pinch_and_fist_def pinch_only_def no_hands_def
      fistOn_def pinching_def sample_pinch_class sample_fist_class hand_of_def)+


section \<open>The claims about the gesture state machine\<close>


text \<open>
  C3. A fist of one side shown in every frame of a run that starts with the slot idle:
  the hold timer starts at the first frame of the run; as long as less than
  \<open>HOLD_DURATION_MS\<close> has elapsed since then, the rotation published for that side is
  the one from before the run, and from \<open>HOLD_DURATION_MS\<close> on it is the rotation
  classified for that side's fist in the latest frame.
\<close>

theorem hold_to_activate_latency:
  assumes "isInitialized d"
    and "holdStart (fistSlot side) d = None" and "\<not> confirmed (fistSlot side) d"
    and "frames \<noteq> []"
    and "\<forall>fr \<in> set frames. wellFormed (frame_results fr) \<and> rawPresent (fistSlot side) (frame_results fr)"
    and "sorted (map clock' frames)"
  shows "\<exists>d'. runFrames frames d = Inr d' \<and>
     holdStart (fistSlot side) d' = Some (clock' (hd frames)) \<and>
     (if clock' (last frames) - clock' (hd frames) < HOLD_DURATION_MS
      then publishedRotation side d' = publishedRotation side d
      else Some (publishedRotation side d') =
             fistRotationIn side (frameHands (frame_results (last frames))))"
proof -
  from run_from_idle[OF assms] obtain d' where
    run: "runFrames frames d = Inr d'"
    and h: "holdStart (fistSlot side) d' = Some (clock' (hd frames))"
    and c: "confirmed (fistSlot side) d' \<longleftrightarrow>
              HOLD_DURATION_MS \<le> clock' (last frames) - clock' (hd frames)"
    and p: "if confirmed (fistSlot side) d'
      then Some (publishedBy (fistSlot side) d') = frameValue (fistSlot side) (frame_results (last frames))
      else publishedBy (fistSlot side) d' =
             (if fistSlot side = PinchSlot then PinchOff else publishedBy (fistSlot side) d)"
    by blast
  have "if clock' (last frames) - clock' (hd frames) < HOLD_DURATION_MS
      then publishedRotation side d' = publishedRotation side d
      else Some (publishedRotation side d') =
             fistRotationIn side (frameHands (frame_results (last frames)))"
    using c p
    by (cases side; cases "fistRotationIn side (frameHands (frame_results (last frames)))")
       (auto simp: not_less[symmetric])
  with run h show ?thesis by blast
qed

lemma raw_fist_samples:
  "rawPresent (fistSlot Left) (frame_results (frame_of t [(hand_of Left, sample_fist)]))"
  "rawPresent (fistSlot Left) (frame_results (frame_of t [(hand_of Left, sample_fist_turned)]))"
  "wellFormed (frame_results (frame_of t [(hand_of Left, sample_fist)]))"
  "wellFormed (frame_results (frame_of t [(hand_of Left, sample_fist_turned)]))"
  "fistRotationIn Left (frameHands (frame_results (frame_of t [(hand_of Left, sample_fist_turned)]))) = Some 90"
  "fistRotationIn Left (frameHands (frame_results (frame_of t [(hand_of Left, sample_fist)]))) = Some 45"
  by (simp_all add: frame_of_def frameHands_def wellFormed_def fistOn_def hand_of_def
      fistRotationIn_def sample_fist_class sample_fist_turned_class)
    (simp_all add: sample_fist_turned_def sample_fist_def)

theorem hold_to_activate_latency_witness:
  "(\<exists>d'. runFrames [frame_of 0 [(hand_of Left, sample_fist)],
                     frame_of 449 [(hand_of Left, sample_fist_turned)]] started_detector = Inr d' \<and>
         fistHoldStart_left d' = Some 0 \<and> lastLeftRotation d' = 0) \<and>
   (\<exists>d'. runFrames [frame_of 0 [(hand_of Left, sample_fist)],
                     frame_of 449 [(hand_of Left, sample_fist)],
                     frame_of 451 [(hand_of Left, sample_fist_turned)]] started_detector = Inr d' \<and>
         fistHoldStart_left d' = Some 0 \<and> lastLeftRotation d' = 90)"
proof -
  let ?early = "[frame_of 0 [(hand_of Left, sample_fist)],
                 frame_of 449 [(hand_of Left, sample_fist_turned)]]"
  let ?late = "[frame_of 0 [(hand_of Left, sample_fist)],
                frame_of 449 [(hand_of Left, sample_fist)],
                frame_of 451 [(hand_of Left, sample_fist_turned)]]"
  have idle: "isInitialized started_detector" "holdStart (fistSlot Left) started_detector = None"
    "\<not> confirmed (fistSlot Left) started_detector"
    by (simp_all add: started_detector_def new_detector_def)
  have zero: "publishedRotation Left started_detector = 0"
    by (simp add: started_detector_def new_detector_def)
  have t: "clock' (frame_of t hls) = t" for t hls by (simp add: frame_of_def)
  have early: "?early \<noteq> []"
    "\<forall>fr \<in> set ?early. wellFormed (frame_results fr) \<and> rawPresent (fistSlot Left) (frame_results fr)"
    "sorted (map clock' ?early)"
    using raw_fist_samples by (simp_all add: t)
  have late: "?late \<noteq> []"
    "\<forall>fr \<in> set ?late. wellFormed (frame_results fr) \<and> rawPresent (fistSlot Left) (frame_results fr)"
    "sorted (map clock' ?late)"
    using raw_fist_samples by (simp_all add: t)
  from hold_to_activate_latency[OF idle early] have "\<exists>d'. runFrames ?early started_detector = Inr d' \<and>
         fistHoldStart_left d' = Some 0 \<and> lastLeftRotation d' = 0"
    using zero by (simp add: t HOLD_DURATION_MS_def)
  moreover from hold_to_activate_latency[OF idle late] have "\<exists>d'. runFrames ?late started_detector = Inr d' \<and>
         fistHoldStart_left d' = Some 0 \<and> lastLeftRotation d' = 90"
    using raw_fist_samples(5)[of 451] by (simp add: t HOLD_DURATION_MS_def)
  ultimately show ?thesis by blast
qed


text \<open>
  C7. One processed frame in which the raw condition of a slot (left fist, right fist
  or pinch) is absent clears that slot's hold-start timestamp and its confirmed flag,
  whatever the slot's state was; what the slot publishes is then the retained rotation
  (fist) or no pinch. In a run of frames that show the gesture again, the timer
  restarts at the first of them, and the slot is confirmed exactly when
  \<open>HOLD_DURATION_MS\<close> has elapsed since that frame; until then nothing new is
  published.
\<close>

theorem instant_cancel:
  assumes "isInitialized d" and "wellFormed res" and "\<not> rawPresent sl res"
    and "\<forall>fr \<in> set frames. wellFormed (frame_results fr) \<and> rawPresent sl (frame_results fr)"
    and "sorted (map clock' frames)"
  shows "\<exists>d0 ev rs. onResults now now' res d = Inr (d0, Some ev, rs) \<and>
     holdStart sl d0 = None \<and> \<not> confirmed sl d0 \<and>
     publishedBy sl d0 = (if sl = PinchSlot then PinchOff else publishedBy sl d) \<and>
     (\<exists>d'. runFrames frames d0 = Inr d' \<and>
        (frames \<noteq> [] \<longrightarrow>
           holdStart sl d' = Some (clock' (hd frames)) \<and>
           (confirmed sl d' \<longleftrightarrow>
              HOLD_DURATION_MS \<le> clock' (last frames) - clock' (hd frames)) \<and>
           (\<not> confirmed sl d' \<longrightarrow> publishedBy sl d' = publishedBy sl d0)))"
proof -
  from onResults_slot[OF assms(2,1), of now now' sl] obtain d0 ev rs where
    step: "onResults now now' res d = Inr (d0, Some ev, rs)"
    and i0: "isInitialized d0"
    and h0: "holdStart sl d0 =
       (if rawPresent sl res
        then Some (case holdStart sl d of None \<Rightarrow> now' | Some s \<Rightarrow> s) else None)"
    and c0: "confirmed sl d0 =
       (rawPresent sl res \<and>
        (case holdStart sl d of
           None \<Rightarrow> sl \<noteq> PinchSlot \<and> confirmed sl d
         | Some s \<Rightarrow> confirmed sl d \<or> HOLD_DURATION_MS \<le> now' - s))"
    and p0: "if confirmed sl d0 then Some (publishedBy sl d0) = frameValue sl res
      else publishedBy sl d0 = (if sl = PinchSlot then PinchOff else publishedBy sl d)"
    by blast
  have h: "holdStart sl d0 = None" using h0 assms(3) by simp
  have c: "\<not> confirmed sl d0" using c0 assms(3) by simp
  have p: "publishedBy sl d0 = (if sl = PinchSlot then PinchOff else publishedBy sl d)"
    using p0 c by simp
  have "\<exists>d'. runFrames frames d0 = Inr d' \<and>
        (frames \<noteq> [] \<longrightarrow>
           holdStart sl d' = Some (clock' (hd frames)) \<and>
           (confirmed sl d' \<longleftrightarrow>
              HOLD_DURATION_MS \<le> clock' (last frames) - clock' (hd frames)) \<and>
           (\<not> confirmed sl d' \<longrightarrow> publishedBy sl d' = publishedBy sl d0))"
  proof (cases "frames = []")
    case True
    then show ?thesis by simp
  next
    case False
    from run_from_idle[OF i0 h c False assms(4,5)] obtain d' where
      "runFrames frames d0 = Inr d'"
      "holdStart sl d' = Some (clock' (hd frames))"
      "confirmed sl d' \<longleftrightarrow> HOLD_DURATION_MS \<le> clock' (last frames) - clock' (hd frames)"
      "if confirmed sl d'
       then Some (publishedBy sl d') = frameValue sl (frame_results (last frames))
       else publishedBy sl d' = (if sl = PinchSlot then PinchOff else publishedBy sl d0)"
      by blast
    then show ?thesis using p by auto
  qed
  with step h c p show ?thesis by blast
qed

lemma raw_right_fist_samples:
  "rawPresent RightFistSlot (frame_results (frame_of t [(hand_of Right, sample_fist)]))"
  "wellFormed (frame_results (frame_of t [(hand_of Right, sample_fist)]))"
  by (simp_all add: frame_of_def frameHands_def wellFormed_def fistOn_def hand_of_def
      sample_fist_class)
    (simp_all add: sample_fist_def)

lemma raw_pinch_samples:
  "rawPresent PinchSlot (frame_results (frame_of t [(hand_of Left, sample_pinch)]))"
  "wellFormed (frame_results (frame_of t [(hand_of Left, sample_pinch)]))"
  by (simp_all add: frame_of_def frameHands_def wellFormed_def pinching_def hand_of_def
      sample_pinch_class)
    (simp_all add: sample_pinch_def)

theorem instant_cancel_witness:
  "(\<exists>d0 ev rs. onResults 600 600 no_hands detector_pinch_and_fist = Inr (d0, Some ev, rs) \<and>
     fistHoldStart_right d0 = None \<and> \<not> fistActive_right d0 \<and> lastRightRotation d0 = 45 \<and>
     (\<exists>d'. runFrames [frame_of 700 [(hand_of Right, sample_fist)],
                       frame_of 1149 [(hand_of Right, sample_fist)]] d0 = Inr d' \<and>
           fistHoldStart_right d' = Some 700 \<and> \<not> fistActive_right d' \<and>
           lastRightRotation d' = 45)) \<and>
   (\<exists>d0 ev rs. onResults 600 600 no_hands detector_pinch_and_fist = Inr (d0, Some ev, rs) \<and>
     pinchHoldStart d0 = None \<and> \<not> pinchActiveConfirmed d0 \<and> \<not> pinchActive d0 \<and>
     (\<exists>d'. runFrames [frame_of 700 [(hand_of Left, sample_pinch)],
                       frame_of 1149 [(hand_of Left, sample_pinch)]] d0 = Inr d' \<and>
           pinchHoldStart d' = Some 700 \<and> \<not> pinchActiveConfirmed d' \<and> \<not> pinchActive d'))"
proof -
  let ?fist = "[frame_of 700 [(hand_of Right, sample_fist)],
                frame_of 1149 [(hand_of Right, sample_fist)]]"
  let ?pinch = "[frame_of 700 [(hand_of Left, sample_pinch)],
                 frame_of 1149 [(hand_of Left, sample_pinch)]]"
  have before: "isInitialized detector_pinch_and_fist"
    "fistActive_right detector_pinch_and_fist" "pinchActive detector_pinch_and_fist"
    "lastRightRotation detector_pinch_and_fist = 45"
    by (simp_all add: detector_pinch_and_fist_def)
  have t: "clock' (frame_of t hls) = t" for t hls by (simp add: frame_of_def)
  have fist: "\<forall>fr \<in> set ?fist. wellFormed (frame_results fr) \<and> rawPresent RightFistSlot (frame_results fr)"
    "sorted (map clock' ?fist)"
    using raw_right_fist_samples by (simp_all add: t)
  have pinch: "\<forall>fr \<in> set ?pinch. wellFormed (frame_results fr) \<and> rawPresent PinchSlot (frame_results fr)"
    "sorted (map clock' ?pinch)"
    using raw_pinch_samples by (simp_all add: t)
  from instant_cancel[OF before(1) wellFormed_samples(4) raw_samples(7) fist, of 600 600]
  have 1: "\<exists>d0 ev rs. onResults 600 600 no_hands detector_pinch_and_fist = Inr (d0, Some ev, rs) \<and>
     fistHoldStart_right d0 = None \<and> \<not> fistActive_right d0 \<and> lastRightRotation d0 = 45 \<and>
     (\<exists>d'. runFrames ?fist d0 = Inr d' \<and>
           fistHoldStart_right d' = Some 700 \<and> \<not> fistActive_right d' \<and>
           lastRightRotation d' = 45)"
    using before(4) by (simp add: t HOLD_DURATION_MS_def) metis
  from instant_cancel[OF before(1) wellFormed_samples(4) raw_samples(7) pinch, of 600 600]
  have 2: "\<exists>d0 ev rs. onResults 600 600 no_hands detector_pinch_and_fist = Inr (d0, Some ev, rs) \<and>
     pinchHoldStart d0 = None \<and> \<not> pinchActiveConfirmed d0 \<and> \<not> pinchActive d0 \<and>
     (\<exists>d'. runFrames ?pinch d0 = Inr d' \<and>
           pinchHoldStart d' = Some 700 \<and> \<not> pinchActiveConfirmed d' \<and> \<not> pinchActive d')"
    by (simp add: t HOLD_DURATION_MS_def split: if_splits) metis
  from 1 2 show ?thesis by blast
qed


section \<open>The rotation classifier\<close>


lemma atan2_bounds: "- pi < atan2 y x \<and> atan2 y x \<le> pi"
proof -
  have lb: "- (pi / 2) < arctan (y / x)" and ub: "arctan (y / x) < pi / 2"
    by (rule arctan_lbound, rule arctan_ubound)
  have p: "0 < pi" by (rule pi_gt_zero)
  consider "0 < x" | "x < 0" "0 \<le> y" | "x < 0" "y < 0" | "x = 0" by linarith
  then show ?thesis
  proof cases
    case 1
    then have "atan2 y x = arctan (y / x)" by (simp add: atan2_def)
    then show ?thesis using lb ub p by linarith
  next
    case 2
    then have "y / x \<le> 0" by (simp add: divide_nonneg_neg)
    then have le: "arctan (y / x) \<le> 0" by (simp add: arctan_le_zero_iff)
    have "atan2 y x = arctan (y / x) + pi" using 2 by (simp add: atan2_def)
    then show ?thesis using le lb p by linarith
  next
    case 3
    then have "0 < y / x" by (simp add: divide_neg_neg)
    then have gt: "0 < arctan (y / x)" by (simp add: zero_less_arctan_iff)
    have "atan2 y x = arctan (y / x) - pi" using 3 by (simp add: atan2_def)
    then show ?thesis using gt ub p by linarith
  next
    case 4
    then have "atan2 y x = pi / 2 \<or> atan2 y x = - (pi / 2) \<or> atan2 y x = 0"
      by (simp add: atan2_def)
    then show ?thesis using p by linarith
  qed
qed

lemma degrees_bounds:
  assumes "- pi < a" and "a \<le> pi"
  shows "- 180 < a * (180 / pi) \<and> a * (180 / pi) \<le> 180"
proof -
  have p: "0 < pi" by (rule pi_gt_zero)
  have e: "a * (180 / pi) = (a * 180) / pi" by simp
  have "- 180 * pi < a * 180" using assms(1) by linarith
  then have l: "- 180 < (a * 180) / pi" using p by (simp add: pos_less_divide_eq)
  have "a * 180 \<le> 180 * pi" using assms(2) by linarith
  then have u: "(a * 180) / pi \<le> 180" using p by (simp add: pos_divide_le_eq)
  from l u e show ?thesis by simp
qed

lemma rawAngle_bounds: "- 90 < rawAngle lm \<and> rawAngle lm \<le> 270"
proof -
  let ?a = "atan2 (y_of (lm ! 12) - y_of (lm ! 0)) (x_of (lm ! 12) - x_of (lm ! 0))"
  from atan2_bounds[of "y_of (lm ! 12) - y_of (lm ! 0)" "x_of (lm ! 12) - x_of (lm ! 0)"]
  have "- 180 < ?a * (180 / pi) \<and> ?a * (180 / pi) \<le> 180"
    using degrees_bounds by blast
  then show ?thesis by (simp add: rawAngle_def Let_def)
qed

lemma normalizeAngle_bounds:
  assumes "- 90 < a" and "a \<le> 270"
  shows "- 180 < normalizeAngle a \<and> normalizeAngle a \<le> 180"
  using assms by (simp add: normalizeAngle_def Let_def)

text \<open>
  C6. On a landmark array that has the wrist and the middle fingertip,
  \<^verbatim>\<open>calculateHandRotation\<close> returns a value: the angle of \<^verbatim>\<open>atan2\<close> in degrees plus
  90, which lies in (-90, 270], normalized into (-180, 180] and then clamped, so the
  value lies in [-90, 90].
\<close>

theorem rotation_clamp:
  assumes "12 < length lm"
  shows "\<exists>r. calculateHandRotation lm = Inr r \<and> - 90 \<le> r \<and> r \<le> 90 \<and>
     r = max (- 90) (min 90 (normalizeAngle (rawAngle lm))) \<and>
     - 180 < normalizeAngle (rawAngle lm) \<and> normalizeAngle (rawAngle lm) \<le> 180"
proof -
  from rawAngle_bounds[of lm] have "- 180 < normalizeAngle (rawAngle lm) \<and> normalizeAngle (rawAngle lm) \<le> 180"
    using normalizeAngle_bounds by blast
  then show ?thesis using assms by (simp add: calculateHandRotation_def)
qed


lemma sample_pointing_down_angle: "rawAngle sample_pointing_down = 180"
  by (simp add: rawAngle_def sample_pointing_down_def pt_def atan2_def)

lemma sample_down_left_angle: "rawAngle sample_down_left = 225"
proof -
  have e: "atan2 (1 / 10) (- (1 / 10)) = pi * (3 / 4)"
    by (simp add: atan2_def arctan_minus arctan_one)
  have "atan2 (1 / 10) (- (1 / 10)) * (180 / pi) = 135"
    unfolding e by simp
  then show ?thesis
    by (simp add: rawAngle_def sample_down_left_def pt_def)
qed

theorem rotation_clamp_witness:
  "calculateHandRotation sample_pointing_down = Inr 90 \<and>
   normalizeAngle (rawAngle sample_pointing_down) = 180 \<and>
   calculateHandRotation sample_down_left = Inr (- 90) \<and>
   normalizeAngle (rawAngle sample_down_left) = - 135"
proof -
  have l: "12 < length sample_pointing_down" "12 < length sample_down_left"
    by (simp_all add: sample_pointing_down_def sample_down_left_def)
  have n: "normalizeAngle (rawAngle sample_pointing_down) = 180"
    "normalizeAngle (rawAngle sample_down_left) = - 135"
    by (simp_all add: sample_pointing_down_angle sample_down_left_angle normalizeAngle_def)
  from rotation_clamp[OF l(1)] rotation_clamp[OF l(2)] n show ?thesis by auto
qed


section \<open>The key selector\<close>


lemma resize_fields:
  "canvas_width (resize w h ov) = w" "canvas_height (resize w h ov) = h"
  "centerX (resize w h ov) = real w / 2" "centerY (resize w h ov) = real h / 2"
  "minDim (resize w h ov) = min (real w) (real h)"
  "rotationOffset (resize w h ov) = rotationOffset ov"
  by (simp_all add: resize_def Let_def)

lemma getKeyAtPosition_rings:
  "getKeyAtPosition (resize w h ov) (Some p) =
     (if distanceFromCenter w h p < CENTER_RADIUS * min (real w) (real h) then Null
      else if distanceFromCenter w h p < INNER_RADIUS * min (real w) (real h)
      then tableEntry MINOR_KEYS (segmentAt (resize w h ov) p)
      else if distanceFromCenter w h p < OUTER_RADIUS * min (real w) (real h)
      then tableEntry MAJOR_KEYS (segmentAt (resize w h ov) p)
      else Null)"
  by (simp add: getKeyAtPosition_def Let_def resize_fields distanceFromCenter_def segmentAt_def)

text \<open>
  C4. On an overlay sized by \<^verbatim>\<open>resize\<close>, for every pinch position and every rotation
  offset, the hit test goes by the distance of the position from the centre of the
  canvas against the three radii, fractions 0.12, 0.25 and 0.42 of the smaller canvas
  dimension: below the centre radius null; from the centre radius to below the inner
  radius the entry of the minor table at the computed segment index; from the inner
  radius to below the outer radius the entry of the major table at that index; from the
  outer radius on null. At distance 0 the result is null.
\<close>

theorem ring_classification:
  "(distanceFromCenter w h p < CENTER_RADIUS * min (real w) (real h) \<longrightarrow>
      getKeyAtPosition (resize w h ov) (Some p) = Null) \<and>
   (distanceFromCenter w h p = 0 \<longrightarrow>
      getKeyAtPosition (resize w h ov) (Some p) = Null) \<and>
   (CENTER_RADIUS * min (real w) (real h) \<le> distanceFromCenter w h p \<and>
    distanceFromCenter w h p < INNER_RADIUS * min (real w) (real h) \<longrightarrow>
      getKeyAtPosition (resize w h ov) (Some p) =
        tableEntry MINOR_KEYS (segmentAt (resize w h ov) p)) \<and>
   (INNER_RADIUS * min (real w) (real h) \<le> distanceFromCenter w h p \<and>
    distanceFromCenter w h p < OUTER_RADIUS * min (real w) (real h) \<longrightarrow>
      getKeyAtPosition (resize w h ov) (Some p) =
        tableEntry MAJOR_KEYS (segmentAt (resize w h ov) p)) \<and>
   (OUTER_RADIUS * min (real w) (real h) \<le> distanceFromCenter w h p \<longrightarrow>
      getKeyAtPosition (resize w h ov) (Some p) = Null) \<and>
   CENTER_RADIUS = 0.12 \<and> INNER_RADIUS = 0.25 \<and> OUTER_RADIUS = 0.42"
proof -
  define m where "m = min (real w) (real h)"
  have m: "0 \<le> m" by (simp add: m_def)
  have c: "CENTER_RADIUS * m \<le> INNER_RADIUS * m"
    unfolding CENTER_RADIUS_def INNER_RADIUS_def using m by (intro mult_right_mono) simp_all
  have i: "INNER_RADIUS * m \<le> OUTER_RADIUS * m"
    unfolding OUTER_RADIUS_def INNER_RADIUS_def using m by (intro mult_right_mono) simp_all
  have z: "0 \<le> CENTER_RADIUS * m"
    unfolding CENTER_RADIUS_def using m by simp
  have radii: "CENTER_RADIUS = 0.12 \<and> INNER_RADIUS = 0.25 \<and> OUTER_RADIUS = 0.42"
    by (simp add: CENTER_RADIUS_def INNER_RADIUS_def OUTER_RADIUS_def)
  have dead: "distanceFromCenter w h p = 0 \<longrightarrow>
      getKeyAtPosition (resize w h ov) (Some p) = Null"
  proof
    assume d0: "distanceFromCenter w h p = 0"
    show "getKeyAtPosition (resize w h ov) (Some p) = Null"
    proof (cases "m = 0")
      case True
      then show ?thesis
        unfolding getKeyAtPosition_rings m_def[symmetric] using d0 by simp
    next
      case False
      then have "0 < CENTER_RADIUS * m" using m by (simp add: CENTER_RADIUS_def)
      then show ?thesis
        unfolding getKeyAtPosition_rings m_def[symmetric] using d0 by simp
    qed
  qed
  have rings: "(distanceFromCenter w h p < CENTER_RADIUS * m \<longrightarrow>
      getKeyAtPosition (resize w h ov) (Some p) = Null) \<and>
   (CENTER_RADIUS * m \<le> distanceFromCenter w h p \<and>
    distanceFromCenter w h p < INNER_RADIUS * m \<longrightarrow>
      getKeyAtPosition (resize w h ov) (Some p) =
        tableEntry MINOR_KEYS (segmentAt (resize w h ov) p)) \<and>
   (INNER_RADIUS * m \<le> distanceFromCenter w h p \<and>
    distanceFromCenter w h p < OUTER_RADIUS * m \<longrightarrow>
      getKeyAtPosition (resize w h ov) (Some p) =
        tableEntry MAJOR_KEYS (segmentAt (resize w h ov) p)) \<and>
   (OUTER_RADIUS * m \<le> distanceFromCenter w h p \<longrightarrow>
      getKeyAtPosition (resize w h ov) (Some p) = Null)"
    unfolding getKeyAtPosition_rings m_def[symmetric] using c i z
    by (cases "distanceFromCenter w h p < CENTER_RADIUS * m";
        cases "distanceFromCenter w h p < INNER_RADIUS * m";
        cases "distanceFromCenter w h p < OUTER_RADIUS * m") simp_all
  from dead rings radii show ?thesis unfolding m_def by blast
qed

lemma sample_distances:
  "distanceFromCenter 1000 1000 at_center = 0"
  "distanceFromCenter 1000 1000 in_minor_ring = 200"
  "distanceFromCenter 1000 1000 in_major_ring = 400"
  "distanceFromCenter 1000 1000 outside_wheel = 450"
proof -
  have s: "sqrt (a * a) = a" if "0 \<le> a" for a :: real using that by simp
  show "distanceFromCenter 1000 1000 at_center = 0"
    by (simp add: distanceFromCenter_def at_center_def pt_def)
  have "distanceFromCenter 1000 1000 in_minor_ring = sqrt (200 * 200)"
    by (simp add: distanceFromCenter_def in_minor_ring_def pt_def)
  then show "distanceFromCenter 1000 1000 in_minor_ring = 200" using s[of 200] by simp
  have "distanceFromCenter 1000 1000 in_major_ring = sqrt (400 * 400)"
    by (simp add: distanceFromCenter_def in_major_ring_def pt_def)
  then show "distanceFromCenter 1000 1000 in_major_ring = 400" using s[of 400] by simp
  have "distanceFromCenter 1000 1000 outside_wheel = sqrt (450 * 450)"
    by (simp add: distanceFromCenter_def outside_wheel_def pt_def)
  then show "distanceFromCenter 1000 1000 outside_wheel = 450" using s[of 450] by simp
qed

lemma pinchAngle_straight_up:
  assumes "dy < 0"
  shows "pinchAngle sample_overlay 0 dy = 0"
proof -
  have a: "atan2 0 (- dy) = 0" using assms by (simp add: atan2_def)
  show ?thesis
    using assms a
    by (simp add: pinchAngle_def jsRemainder_def sample_overlay_def resize_fields blank_overlay_def)
qed

lemma segment_straight_up:
  assumes "x_of p = 1 / 2" and "y_of p < 1 / 2"
  shows "segmentAt sample_overlay p = 0"
proof -
  have dx: "x_of p * real (canvas_width sample_overlay) - centerX sample_overlay = 0"
    using assms(1) by (simp add: sample_overlay_def resize_fields)
  have dy: "y_of p * real (canvas_height sample_overlay) - centerY sample_overlay < 0"
    using assms(2) by (simp add: sample_overlay_def resize_fields)
  show ?thesis
    unfolding segmentAt_def segmentIndex_def dx pinchAngle_straight_up[OF dy] by simp
qed

theorem ring_classification_witness:
  "getKeyAtPosition sample_overlay (Some at_center) = Null \<and>
   getKeyAtPosition sample_overlay (Some in_minor_ring) = KeyName ''Am'' \<and>
   getKeyAtPosition sample_overlay (Some in_major_ring) = KeyName ''C'' \<and>
   getKeyAtPosition sample_overlay (Some outside_wheel) = Null"
proof -
  note r = ring_classification[where w = 1000 and h = 1000 and ov = blank_overlay,
      folded sample_overlay_def]
  have up: "segmentAt sample_overlay in_minor_ring = 0" "segmentAt sample_overlay in_major_ring = 0"
    by (rule segment_straight_up; simp add: in_minor_ring_def in_major_ring_def pt_def)+
  have "getKeyAtPosition sample_overlay (Some at_center) = Null"
    using r[of at_center] by (simp add: sample_distances)
  moreover have "getKeyAtPosition sample_overlay (Some in_minor_ring) = KeyName ''Am''"
    using r[of in_minor_ring] up
    by (simp add: sample_distances tableEntry_def MINOR_KEYS_def)
  moreover have "getKeyAtPosition sample_overlay (Some in_major_ring) = KeyName ''C''"
    using r[of in_major_ring] up
    by (simp add: sample_distances tableEntry_def MAJOR_KEYS_def)
  moreover have "getKeyAtPosition sample_overlay (Some outside_wheel) = Null"
    using r[of outside_wheel] by (simp add: sample_distances)
  ultimately show ?thesis by blast
qed


section \<open>Key names and the audio engine\<close>


lemma setKey_known:
  assumes "rootFrequency (rootNameOf k) = NumberProperty f"
  shows "snd (setKey k e) = None" "currentKey (fst (setKey k e)) = k"
    "isMinor (fst (setKey k e)) = endsWith_m k"
    "baseFreqs (fst (setKey k e)) =
       map (\<lambda>ratio. Hz (f * ratio)) (if endsWith_m k then MINOR_INTERVALS else MAJOR_INTERVALS)"
  using assms
  by (simp_all add: setKey_def rootNameOf_def Let_def timesRatio_def isInitialized_engine_def)

lemma setKey_unknown:
  assumes "rootFrequency (rootNameOf k) = Undefined"
  shows "setKey k e = (e, Some (''Unknown key: '' @ k))"
  using assms by (simp add: setKey_def rootNameOf_def Let_def)

lemma table_roots:
  "\<forall>k \<in> set (MAJOR_KEYS @ MINOR_KEYS). rootNameOf k \<in> fst ` set ROOT_FREQUENCIES"
  by (simp add: MAJOR_KEYS_def MINOR_KEYS_def rootNameOf_def endsWith_m_def
      ROOT_FREQUENCIES_def)

lemma tableEntry_in_table: "tableEntry table i = KeyName k \<Longrightarrow> k \<in> set table"
  by (auto simp: tableEntry_def split: if_splits)

lemma getKeyAtPosition_in_tables:
  "getKeyAtPosition ov pos = KeyName k \<Longrightarrow> k \<in> set (MAJOR_KEYS @ MINOR_KEYS)"
  by (auto simp: getKeyAtPosition_def Let_def split: option.splits if_splits
      dest: tableEntry_in_table)

text \<open>
  C10. Every key name of the two tables of twelve, and so every key name that the hit
  test can return, is accepted by \<^verbatim>\<open>setKey\<close>: the root name left after stripping the
  \<open>m\<close> of a minor name is an entry of \<open>ROOT_FREQUENCIES\<close>, no warning is issued and the
  key becomes the current key.
\<close>

theorem menu_keys_accepted:
  "length MAJOR_KEYS = 12 \<and> length MINOR_KEYS = 12 \<and>
   (\<forall>k \<in> set (MAJOR_KEYS @ MINOR_KEYS).
      (\<exists>f. map_of ROOT_FREQUENCIES (rootNameOf k) = Some f \<and>
           rootFrequency (rootNameOf k) = NumberProperty f) \<and>
      snd (setKey k e) = None \<and> currentKey (fst (setKey k e)) = k) \<and>
   (getKeyAtPosition ov pos = KeyName k \<longrightarrow>
      k \<in> set (MAJOR_KEYS @ MINOR_KEYS) \<and>
      snd (setKey k e) = None \<and> currentKey (fst (setKey k e)) = k)"
proof -
  have len: "length MAJOR_KEYS = 12 \<and> length MINOR_KEYS = 12"
    by (simp add: MAJOR_KEYS_def MINOR_KEYS_def)
  have acc: "(\<exists>f. map_of ROOT_FREQUENCIES (rootNameOf k) = Some f \<and>
           rootFrequency (rootNameOf k) = NumberProperty f) \<and>
      snd (setKey k e) = None \<and> currentKey (fst (setKey k e)) = k"
    if "k \<in> set (MAJOR_KEYS @ MINOR_KEYS)" for k
  proof -
    from table_roots that have "rootNameOf k \<in> fst ` set ROOT_FREQUENCIES" by blast
    then have "map_of ROOT_FREQUENCIES (rootNameOf k) \<noteq> None"
      by (simp add: map_of_eq_None_iff)
    then obtain f where m: "map_of ROOT_FREQUENCIES (rootNameOf k) = Some f"
      by blast
    then have f: "rootFrequency (rootNameOf k) = NumberProperty f"
      by (simp add: rootFrequency_def)
    with m setKey_known[OF f] show ?thesis by blast
  qed
  from len acc getKeyAtPosition_in_tables[of ov pos k] show ?thesis by blast
qed

theorem menu_keys_accepted_witness:
  "getKeyAtPosition sample_overlay (Some in_minor_ring) = KeyName ''Am'' \<and>
   ''Am'' \<in> set (MAJOR_KEYS @ MINOR_KEYS) \<and>
   snd (setKey ''Am'' new_engine) = None \<and> currentKey (fst (setKey ''Am'' new_engine)) = ''Am'' \<and>
   snd (setKey ''F#'' new_engine) = None \<and> currentKey (fst (setKey ''F#'' new_engine)) = ''F#''"
proof -
  have up: "segmentAt sample_overlay in_minor_ring = 0"
    by (rule segment_straight_up) (simp_all add: in_minor_ring_def pt_def)
  have hit: "getKeyAtPosition sample_overlay (Some in_minor_ring) = KeyName ''Am''"
    unfolding sample_overlay_def getKeyAtPosition_rings
    using up[unfolded sample_overlay_def]
    by (simp add: sample_distances CENTER_RADIUS_def INNER_RADIUS_def tableEntry_def
        MINOR_KEYS_def)
  have fs: "''F#'' \<in> set (MAJOR_KEYS @ MINOR_KEYS)" by (simp add: MAJOR_KEYS_def)
  from menu_keys_accepted[of new_engine sample_overlay "Some in_minor_ring" "''Am''"] hit fs
  show ?thesis by auto
qed

text \<open>
  C8. \<^verbatim>\<open>setKey('Am')\<close> takes the root \<open>A\<close> at 220.00 Hz: no warning, the current key
  is \<open>Am\<close>, the mode is minor, and the four chord frequencies are 220 times the minor
  interval table [1, 1.5, 2, 2.4], that is 220, 330, 440 and 528 Hz.
\<close>

theorem setKey_Am:
  "snd (setKey ''Am'' e) = None \<and>
   currentKey (fst (setKey ''Am'' e)) = ''Am'' \<and>
   isMinor (fst (setKey ''Am'' e)) \<and>
   map_of ROOT_FREQUENCIES ''A'' = Some 220 \<and>
   MINOR_INTERVALS = [1, 1.5, 2, 2.4] \<and>
   baseFreqs (fst (setKey ''Am'' e)) = map (\<lambda>ratio. Hz (220 * ratio)) MINOR_INTERVALS \<and>
   baseFreqs (fst (setKey ''Am'' e)) = [Hz 220, Hz 330, Hz 440, Hz 528]"
proof -
  have r: "rootNameOf ''Am'' = ''A''" "endsWith_m ''Am''"
    by (simp_all add: rootNameOf_def endsWith_m_def)
  have a: "map_of ROOT_FREQUENCIES ''A'' = Some 220" by (simp add: ROOT_FREQUENCIES_def)
  then have f: "rootFrequency (rootNameOf ''Am'') = NumberProperty 220"
    by (simp add: rootFrequency_def r)
  from setKey_known[OF f, of e] r a show ?thesis by (simp add: MINOR_INTERVALS_def)
qed

theorem setKey_Am_witness:
  "currentKey (fst (setKey ''Am'' new_engine)) = ''Am'' \<and>
   isMinor (fst (setKey ''Am'' new_engine)) \<and>
   baseFreqs (fst (setKey ''Am'' new_engine)) = [Hz 220, Hz 330, Hz 440, Hz 528]"
  using setKey_Am[of new_engine] by blast


section \<open>The parameter setters of the audio engine\<close>


lemma validateNumber_cases:
  "validateNumber (Number r) x = r"
  "validateNumber NaN x = x" "validateNumber Infinity x = x"
  "validateNumber NegInfinity x = x" "validateNumber NonNumber x = x"
  by simp_all

lemma validateNumber_invalid: "(\<forall>r. v \<noteq> Number r) \<Longrightarrow> validateNumber v x = x"
  by (cases v) simp_all

text \<open>Before initialization a setter only records its value.\<close>

lemma setIntensity_queued:
  assumes "state e \<noteq> INITIALIZED"
  shows "setIntensity v e =
     Inr (e\<lparr> lastValidIntensity := validateNumber v (lastValidIntensity e),
             pendingIntensity := Some (validateNumber v (lastValidIntensity e)) \<rparr>)"
  using assms by (simp add: setIntensity_def Let_def isInitialized_engine_def del: validateNumber.simps)

lemma setWidth_queued:
  assumes "state e \<noteq> INITIALIZED"
  shows "setWidth v e =
     Inr (e\<lparr> lastValidWidth := validateNumber v (lastValidWidth e),
             pendingWidth := Some (validateNumber v (lastValidWidth e)) \<rparr>)"
  using assms by (simp add: setWidth_def Let_def isInitialized_engine_def del: validateNumber.simps)

text \<open>After initialization a setter applies its mapping and nothing else.\<close>

lemma setIntensity_applied:
  assumes "state e = INITIALIZED" and "roundedGain e \<noteq> None" and "saturatedGain e \<noteq> None"
    and "filter_node e \<noteq> None" and "chorus e \<noteq> None"
  shows "\<exists>e'. setIntensity v e = Inr e' \<and>
     toneCalls e' = toneCalls e @ intensityCalls (clamp (validateNumber v (lastValidIntensity e)) 0 1) \<and>
     lastValidIntensity e' = validateNumber v (lastValidIntensity e) \<and>
     lastValidWidth e' = lastValidWidth e \<and>
     state e' = INITIALIZED \<and> pendingIntensity e' = pendingIntensity e \<and>
     pendingWidth e' = pendingWidth e \<and>
     roundedGain e' \<noteq> None \<and> saturatedGain e' \<noteq> None \<and> filter_node e' \<noteq> None \<and>
     chorus e' \<noteq> None \<and> stereoWidener e' = stereoWidener e"
  using assms
  by (auto simp: setIntensity_def Let_def isInitialized_engine_def intensityCalls_def
      simp del: validateNumber.simps)

lemma setWidth_applied:
  assumes "state e = INITIALIZED" and "chorus e \<noteq> None" and "stereoWidener e \<noteq> None"
  shows "\<exists>e'. setWidth v e = Inr e' \<and>
     toneCalls e' = toneCalls e @ widthCalls e (clamp (validateNumber v (lastValidWidth e)) 0 1) \<and>
     lastValidWidth e' = validateNumber v (lastValidWidth e) \<and>
     lastValidIntensity e' = lastValidIntensity e \<and>
     state e' = INITIALIZED \<and> pendingIntensity e' = pendingIntensity e \<and>
     pendingWidth e' = pendingWidth e \<and>
     roundedGain e' = roundedGain e \<and> saturatedGain e' = saturatedGain e \<and>
     filter_node e' = filter_node e \<and> chorus e' \<noteq> None \<and> stereoWidener e' \<noteq> None"
  using assms
  by (auto simp: setWidth_def Let_def isInitialized_engine_def widthCalls_def
      simp del: validateNumber.simps)

lemma widthCalls_are_width: "\<forall>c \<in> set (widthCalls e w). isWidthCall c"
  by (auto simp: widthCalls_def spreadCalls_def lfoCalls_def)

text \<open>The end of \<^verbatim>\<open>_doInit\<close>: the replay of what is queued.\<close>

lemma doInit_replay_intensity:
  assumes "state e = INITIALIZED" and "roundedGain e \<noteq> None" and "saturatedGain e \<noteq> None"
    and "filter_node e \<noteq> None" and "chorus e \<noteq> None" and "stereoWidener e \<noteq> None"
    and "pendingIntensity e = Some r"
  shows "\<exists>e3 W. doInit_replay e = (e3, None) \<and> state e3 = INITIALIZED \<and>
     pendingIntensity e3 = None \<and> pendingWidth e3 = None \<and>
     lastValidIntensity e3 = r \<and>
     toneCalls e3 = toneCalls e @ W @ intensityCalls (clamp r 0 1) \<and>
     (\<forall>c \<in> set W. isWidthCall c) \<and> (pendingWidth e = None \<longrightarrow> W = [])"
proof -
  obtain e5 W where
    w: "(case pendingWidth e of
                 None \<Rightarrow> Inr e
               | Some w \<Rightarrow>
                   (case setWidth (Number w) e of
                      Inl x \<Rightarrow> Inl x
                    | Inr e1 \<Rightarrow> Inr (e1\<lparr> pendingWidth := None \<rparr>))) = Inr e5"
    and e5: "state e5 = INITIALIZED" "roundedGain e5 \<noteq> None" "saturatedGain e5 \<noteq> None"
    "filter_node e5 \<noteq> None" "chorus e5 \<noteq> None"
    "pendingIntensity e5 = Some r" "pendingWidth e5 = None"
    "toneCalls e5 = toneCalls e @ W" "\<forall>c \<in> set W. isWidthCall c"
    "pendingWidth e = None \<longrightarrow> W = []"
  proof (cases "pendingWidth e")
    case None
    show ?thesis
      by (rule that[of e "[]"]) (use None assms in simp_all)
  next
    case (Some pw)
    from setWidth_applied[OF assms(1,5,6), of "Number pw"] obtain e' where
      "setWidth (Number pw) e = Inr e'"
      "toneCalls e' = toneCalls e @ widthCalls e (clamp (validateNumber (Number pw) (lastValidWidth e)) 0 1)"
      "state e' = INITIALIZED" "pendingIntensity e' = pendingIntensity e"
      "roundedGain e' = roundedGain e" "saturatedGain e' = saturatedGain e"
      "filter_node e' = filter_node e" "chorus e' \<noteq> None"
      by blast
    then show ?thesis
      using Some assms widthCalls_are_width
      by (intro that[of "e'\<lparr> pendingWidth := None \<rparr>"
            "widthCalls e (clamp (validateNumber (Number pw) (lastValidWidth e)) 0 1)"])
         simp_all
  qed
  from setIntensity_applied[OF e5(1-5), of "Number r"] obtain e6 where
    i: "setIntensity (Number r) e5 = Inr e6"
    and e6: "toneCalls e6 = toneCalls e5 @ intensityCalls (clamp (validateNumber (Number r) (lastValidIntensity e5)) 0 1)"
      "lastValidIntensity e6 = validateNumber (Number r) (lastValidIntensity e5)"
      "state e6 = INITIALIZED" "pendingWidth e6 = pendingWidth e5"
    by blast
  have "doInit_replay e = (e6\<lparr> pendingIntensity := None \<rparr>, None)"
    unfolding doInit_replay_def w using e5(6) i by simp
  then show ?thesis using e6 e5 by simp
qed

lemma doInit_buildGraph_fields:
  "state (doInit_buildGraph e) = INITIALIZED"
  "roundedGain (doInit_buildGraph e) \<noteq> None" "saturatedGain (doInit_buildGraph e) \<noteq> None"
  "filter_node (doInit_buildGraph e) \<noteq> None" "chorus (doInit_buildGraph e) \<noteq> None"
  "stereoWidener (doInit_buildGraph e) \<noteq> None"
  "pendingIntensity (doInit_buildGraph e) = pendingIntensity e"
  "pendingWidth (doInit_buildGraph e) = pendingWidth e"
  "toneCalls (doInit_buildGraph e) = toneCalls e"
  "lastValidIntensity (doInit_buildGraph e) = lastValidIntensity e"
  "lastValidWidth (doInit_buildGraph e) = lastValidWidth e"
  by (simp_all add: doInit_buildGraph_def Let_def)

lemma doInit_afterReverb_replay:
  assumes "pendingIntensity e = Some r"
  shows "\<exists>e3 W. doInit_afterReverb e = (e3, None) \<and> state e3 = INITIALIZED \<and>
     pendingIntensity e3 = None \<and> pendingWidth e3 = None \<and>
     lastValidIntensity e3 = r \<and>
     toneCalls e3 = toneCalls e @ W @ intensityCalls (clamp r 0 1) \<and>
     (\<forall>c \<in> set W. isWidthCall c) \<and> (pendingWidth e = None \<longrightarrow> W = [])"
  using doInit_replay_intensity[of "doInit_buildGraph e" r] assms
  by (simp add: doInit_buildGraph_fields doInit_afterReverb_def)

text \<open>Nothing that happens before initialization completes touches the audio graph.\<close>

lemma applyCall_before_init:
  assumes "state e \<noteq> INITIALIZED"
  shows "\<exists>e'. applyCall c e = Inr e' \<and> state e' \<noteq> INITIALIZED \<and> toneCalls e' = toneCalls e \<and>
     (\<not> isIntensityCall c \<longrightarrow> pendingIntensity e' = pendingIntensity e) \<and>
     (\<forall>v. c = CallSetIntensity v \<longrightarrow>
        pendingIntensity e' = Some (validateNumber v (lastValidIntensity e)))"
proof (cases c)
  case CallInit
  then show ?thesis using assms by (simp add: init_def)
next
  case ResumeAfterStart
  then show ?thesis using assms by (simp add: doInit_afterStart_def)
next
  case RejectInit
  then show ?thesis using assms by (simp add: doInit_catch_def)
next
  case (CallSetWidth v)
  then show ?thesis using assms setWidth_queued[OF assms] by simp
next
  case (CallSetIntensity v)
  then show ?thesis using assms setIntensity_queued[OF assms] by simp
next
  case (CallSetKey k)
  then show ?thesis using assms
    by (simp add: setKey_def Let_def isInitialized_engine_def)
qed

lemma applyCalls_before_init:
  assumes "state e \<noteq> INITIALIZED"
  shows "\<exists>e'. applyCalls cs e = Inr e' \<and> state e' \<noteq> INITIALIZED \<and> toneCalls e' = toneCalls e \<and>
     (\<not> list_ex isIntensityCall cs \<longrightarrow> pendingIntensity e' = pendingIntensity e)"
  using assms
proof (induction cs arbitrary: e)
  case Nil
  then show ?case by simp
next
  case (Cons c cs)
  from applyCall_before_init[OF Cons.prems, of c] obtain e1 where
    1: "applyCall c e = Inr e1" "state e1 \<noteq> INITIALIZED" "toneCalls e1 = toneCalls e"
      "\<not> isIntensityCall c \<longrightarrow> pendingIntensity e1 = pendingIntensity e"
    by blast
  from Cons.IH[OF 1(2)] obtain e' where
    2: "applyCalls cs e1 = Inr e'" "state e' \<noteq> INITIALIZED" "toneCalls e' = toneCalls e1"
      "\<not> list_ex isIntensityCall cs \<longrightarrow> pendingIntensity e' = pendingIntensity e1"
    by blast
  show ?case using 1 2 by simp
qed

lemma applyCalls_append:
  "applyCalls (cs @ ds) e =
     (case applyCalls cs e of Inl x \<Rightarrow> Inl x | Inr e' \<Rightarrow> applyCalls ds e')"
  by (induction cs arbitrary: e) (auto split: sum.splits)


text \<open>The nodes exist in every engine that the operations can produce.\<close>

lemma nodesReady_new: "nodesReady new_engine"
  by (simp add: nodesReady_def new_engine_def)

lemma doInit_replay_ready:
  assumes "state e = INITIALIZED" and "roundedGain e \<noteq> None" and "saturatedGain e \<noteq> None"
    and "filter_node e \<noteq> None" and "chorus e \<noteq> None" and "stereoWidener e \<noteq> None"
  shows "\<exists>e3. doInit_replay e = (e3, None) \<and> state e3 = INITIALIZED \<and> nodesReady e3 \<and>
     (pendingWidth e = None \<and> pendingIntensity e = None \<longrightarrow> e3 = e)"
proof -
  obtain e5 where
    w: "(case pendingWidth e of
                 None \<Rightarrow> Inr e
               | Some w \<Rightarrow>
                   (case setWidth (Number w) e of
                      Inl x \<Rightarrow> Inl x
                    | Inr e1 \<Rightarrow> Inr (e1\<lparr> pendingWidth := None \<rparr>))) = Inr e5"
    and e5: "state e5 = INITIALIZED" "roundedGain e5 \<noteq> None" "saturatedGain e5 \<noteq> None"
    "filter_node e5 \<noteq> None" "chorus e5 \<noteq> None" "stereoWidener e5 \<noteq> None"
    "pendingIntensity e5 = pendingIntensity e" "pendingWidth e = None \<longrightarrow> e5 = e"
  proof (cases "pendingWidth e")
    case None
    show ?thesis by (rule that[of e]) (use None assms in simp_all)
  next
    case (Some pw)
    from setWidth_applied[OF assms(1,5,6), of "Number pw"] obtain e' where
      "setWidth (Number pw) e = Inr e'"
      "state e' = INITIALIZED" "pendingIntensity e' = pendingIntensity e"
      "roundedGain e' = roundedGain e" "saturatedGain e' = saturatedGain e"
      "filter_node e' = filter_node e" "chorus e' \<noteq> None" "stereoWidener e' \<noteq> None"
      by blast
    then show ?thesis
      using Some assms by (intro that[of "e'\<lparr> pendingWidth := None \<rparr>"]) simp_all
  qed
  show ?thesis
  proof (cases "pendingIntensity e5")
    case None
    then have "doInit_replay e = (e5, None)" unfolding doInit_replay_def w by simp
    then show ?thesis using e5 None by (auto simp: nodesReady_def)
  next
    case (Some r)
    from setIntensity_applied[OF e5(1-5), of "Number r"] obtain e6 where
      i: "setIntensity (Number r) e5 = Inr e6"
      and e6: "state e6 = INITIALIZED" "roundedGain e6 \<noteq> None" "saturatedGain e6 \<noteq> None"
        "filter_node e6 \<noteq> None" "chorus e6 \<noteq> None" "stereoWidener e6 = stereoWidener e5"
      by blast
    have "doInit_replay e = (e6\<lparr> pendingIntensity := None \<rparr>, None)"
      unfolding doInit_replay_def w using Some i by simp
    then show ?thesis using e6 e5 Some by (auto simp: nodesReady_def)
  qed
qed

lemma doInit_afterReverb_ready:
  "\<exists>e3. doInit_afterReverb e = (e3, None) \<and> state e3 = INITIALIZED \<and> nodesReady e3"
  using doInit_replay_ready[of "doInit_buildGraph e"]
  by (auto simp: doInit_buildGraph_fields doInit_afterReverb_def)

lemma applyCall_ready:
  assumes "nodesReady e"
  shows "\<exists>e'. applyCall c e = Inr e' \<and> nodesReady e'"
proof (cases "state e = INITIALIZED")
  case False
  from applyCall_before_init[OF False, of c] show ?thesis by (auto simp: nodesReady_def)
next
  case True
  with assms have n: "roundedGain e \<noteq> None" "saturatedGain e \<noteq> None" "filter_node e \<noteq> None"
    "chorus e \<noteq> None" "stereoWidener e \<noteq> None"
    by (simp_all add: nodesReady_def)
  show ?thesis
  proof (cases c)
    case CallInit
    then show ?thesis using assms True by (simp add: init_def)
  next
    case ResumeAfterStart
    then show ?thesis using assms by (simp add: doInit_afterStart_def nodesReady_def)
  next
    case RejectInit
    then show ?thesis by (simp add: doInit_catch_def nodesReady_def)
  next
    case (CallSetWidth v)
    from setWidth_applied[OF True n(4,5), of v] n show ?thesis
      unfolding CallSetWidth by (auto simp: nodesReady_def)
  next
    case (CallSetIntensity v)
    from setIntensity_applied[OF True n(1-4), of v] n show ?thesis
      unfolding CallSetIntensity by (auto simp: nodesReady_def)
  next
    case (CallSetKey k)
    then show ?thesis using assms
      by (auto simp: setKey_def Let_def isInitialized_engine_def nodesReady_def)
  qed
qed

lemma ready_engine_fields:
  "state ready_engine = INITIALIZED" "nodesReady ready_engine" "toneCalls ready_engine = []"
  "lastValidIntensity ready_engine = 0" "lastValidWidth ready_engine = 0"
proof -
  let ?e = "doInit_buildGraph (doInit_afterStart (init new_engine))"
  have p: "pendingWidth ?e = None \<and> pendingIntensity ?e = None"
    by (simp add: doInit_buildGraph_fields doInit_afterStart_def init_def new_engine_def)
  from doInit_replay_ready[of ?e] p have r: "doInit_replay ?e = (?e, None)" "nodesReady ?e"
    by (auto simp: doInit_buildGraph_fields)
  then have e: "ready_engine = ?e" by (simp add: ready_engine_def doInit_afterReverb_def)
  show "state ready_engine = INITIALIZED" "nodesReady ready_engine" "toneCalls ready_engine = []"
    "lastValidIntensity ready_engine = 0" "lastValidWidth ready_engine = 0"
    unfolding e using r(2)
    by (simp_all add: doInit_buildGraph_fields doInit_afterStart_def init_def new_engine_def)
qed

text \<open>
  C5. While the engine is not initialized, whatever happened before, a call
  \<^verbatim>\<open>setIntensity(a)\<close>, whatever happens in between, and then a call
  \<^verbatim>\<open>setIntensity(b)\<close> with a number \<open>b\<close>, followed by anything but another
  \<^verbatim>\<open>setIntensity\<close>: nothing is applied to the audio graph so far, \<open>b\<close> is what is queued,
  and the completion of the initialization applies the queued width, if any, and then
  the intensity mapping of \<open>b\<close>, once, and empties the queue. No call of the mapping
  of \<open>a\<close> is made.
\<close>

theorem latest_queued_intensity_wins:
  assumes "state e \<noteq> INITIALIZED" and "\<not> list_ex isIntensityCall after"
  shows "\<exists>e2 e3 W.
     applyCalls (before @ [CallSetIntensity a] @ between @ [CallSetIntensity (Number b)] @ after) e
       = Inr e2 \<and>
     state e2 \<noteq> INITIALIZED \<and> toneCalls e2 = toneCalls e \<and> pendingIntensity e2 = Some b \<and>
     doInit_afterReverb e2 = (e3, None) \<and> state e3 = INITIALIZED \<and>
     pendingIntensity e3 = None \<and>
     toneCalls e3 = toneCalls e @ W @ intensityCalls (clamp b 0 1) \<and>
     (\<forall>c \<in> set W. isWidthCall c) \<and> (pendingWidth e2 = None \<longrightarrow> W = [])"
proof -
  from applyCalls_before_init[OF assms(1), of "before @ [CallSetIntensity a] @ between"]
  obtain e0 where
    0: "applyCalls (before @ [CallSetIntensity a] @ between) e = Inr e0"
      "state e0 \<noteq> INITIALIZED" "toneCalls e0 = toneCalls e"
    by blast
  from applyCall_before_init[OF 0(2), of "CallSetIntensity (Number b)"] obtain e1 where
    1: "applyCall (CallSetIntensity (Number b)) e0 = Inr e1"
      "state e1 \<noteq> INITIALIZED" "toneCalls e1 = toneCalls e0"
      "pendingIntensity e1 = Some b"
    by auto
  from applyCalls_before_init[OF 1(2), of after] assms(2) obtain e2 where
    2: "applyCalls after e1 = Inr e2" "state e2 \<noteq> INITIALIZED" "toneCalls e2 = toneCalls e1"
      "pendingIntensity e2 = pendingIntensity e1"
    by blast
  have run: "applyCalls (before @ [CallSetIntensity a] @ between @ [CallSetIntensity (Number b)] @ after) e
       = Inr e2"
    using applyCalls_append[of "before @ [CallSetIntensity a] @ between"
        "[CallSetIntensity (Number b)] @ after" e] 0(1) 1(1) 2(1)
    by simp
  from doInit_afterReverb_replay[of e2 b] 1(4) 2(4) obtain e3 W where
    3: "doInit_afterReverb e2 = (e3, None)" "state e3 = INITIALIZED"
      "pendingIntensity e3 = None"
      "toneCalls e3 = toneCalls e2 @ W @ intensityCalls (clamp b 0 1)"
      "\<forall>c \<in> set W. isWidthCall c" "pendingWidth e2 = None \<longrightarrow> W = []"
    by auto
  show ?thesis
    using run 0 1 2 3 by (intro exI[of _ e2] exI[of _ e3] exI[of _ W]) simp
qed

theorem latest_queued_intensity_wins_witness:
  "\<exists>e2 e3. applyCalls [CallSetIntensity (Number 0.3), CallSetIntensity (Number 0.7)] new_engine
       = Inr e2 \<and>
     toneCalls e2 = [] \<and> pendingIntensity e2 = Some 0.7 \<and>
     doInit_afterReverb e2 = (e3, None) \<and> state e3 = INITIALIZED \<and>
     pendingIntensity e3 = None \<and>
     toneCalls e3 =
       [GainRampTo Rounded 0.3 0.1, GainRampTo Saturated 0.7 0.1,
        FilterFrequencyRampTo 3590 0.1, FilterQRampTo 2.4 0.1, ChorusDepthSet 0.65]"
proof -
  have s: "state new_engine \<noteq> INITIALIZED" "toneCalls new_engine = []"
    by (simp_all add: new_engine_def)
  have a: "\<not> list_ex isIntensityCall []" by simp
  from latest_queued_intensity_wins[OF s(1) a, of "[]" "Number 0.3" "[]" "0.7"]
  obtain e2 e3 W where
    r: "applyCalls [CallSetIntensity (Number 0.3), CallSetIntensity (Number 0.7)] new_engine = Inr e2"
      "toneCalls e2 = toneCalls new_engine" "pendingIntensity e2 = Some 0.7"
      "doInit_afterReverb e2 = (e3, None)" "state e3 = INITIALIZED" "pendingIntensity e3 = None"
      "toneCalls e3 = toneCalls new_engine @ W @ intensityCalls (clamp 0.7 0 1)"
      "pendingWidth e2 = None \<longrightarrow> W = []"
    by auto
  have "e2 = new_engine\<lparr> lastValidIntensity := 0.7, pendingIntensity := Some 0.7 \<rparr>"
    using r(1) by (simp add: setIntensity_queued s new_engine_def)
  then have "pendingWidth e2 = None" by (simp add: new_engine_def)
  with r(8) have "W = []" by simp
  then have "toneCalls e3 =
       [GainRampTo Rounded 0.3 0.1, GainRampTo Saturated 0.7 0.1,
        FilterFrequencyRampTo 3590 0.1, FilterQRampTo 2.4 0.1, ChorusDepthSet 0.65]"
    using r(7) s(2) by (simp add: intensityCalls_def clamp_def)
  with r s show ?thesis by auto
qed


lemma setter_succeeds:
  assumes "nodesReady e"
  shows "\<exists>e'. setIntensity v e = Inr e' \<and> nodesReady e' \<and>
       lastValidIntensity e' = validateNumber v (lastValidIntensity e) \<and>
       lastValidWidth e' = lastValidWidth e \<and> state e' = state e \<and>
       toneCalls e' = toneCalls e @
         (if state e = INITIALIZED
          then intensityCalls (clamp (validateNumber v (lastValidIntensity e)) 0 1) else []) \<and>
       (state e \<noteq> INITIALIZED \<longrightarrow>
          pendingIntensity e' = Some (validateNumber v (lastValidIntensity e)))"
    and "\<exists>e'. setWidth v e = Inr e' \<and> nodesReady e' \<and>
       lastValidWidth e' = validateNumber v (lastValidWidth e) \<and>
       lastValidIntensity e' = lastValidIntensity e \<and> state e' = state e \<and>
       toneCalls e' = toneCalls e @
         (if state e = INITIALIZED
          then widthCalls e (clamp (validateNumber v (lastValidWidth e)) 0 1) else []) \<and>
       (state e \<noteq> INITIALIZED \<longrightarrow>
          pendingWidth e' = Some (validateNumber v (lastValidWidth e)))"
proof -
  show "\<exists>e'. setIntensity v e = Inr e' \<and> nodesReady e' \<and>
       lastValidIntensity e' = validateNumber v (lastValidIntensity e) \<and>
       lastValidWidth e' = lastValidWidth e \<and> state e' = state e \<and>
       toneCalls e' = toneCalls e @
         (if state e = INITIALIZED
          then intensityCalls (clamp (validateNumber v (lastValidIntensity e)) 0 1) else []) \<and>
       (state e \<noteq> INITIALIZED \<longrightarrow>
          pendingIntensity e' = Some (validateNumber v (lastValidIntensity e)))"
  proof (cases "state e = INITIALIZED")
    case True
    with assms have n: "roundedGain e \<noteq> None" "saturatedGain e \<noteq> None" "filter_node e \<noteq> None"
      "chorus e \<noteq> None" "stereoWidener e \<noteq> None"
      by (simp_all add: nodesReady_def)
    from setIntensity_applied[OF True n(1-4), of v] n(5) True show ?thesis
      by (auto simp: nodesReady_def)
  next
    case False
    then show ?thesis
      by (simp add: setIntensity_queued nodesReady_def del: validateNumber.simps)
  qed
  show "\<exists>e'. setWidth v e = Inr e' \<and> nodesReady e' \<and>
       lastValidWidth e' = validateNumber v (lastValidWidth e) \<and>
       lastValidIntensity e' = lastValidIntensity e \<and> state e' = state e \<and>
       toneCalls e' = toneCalls e @
         (if state e = INITIALIZED
          then widthCalls e (clamp (validateNumber v (lastValidWidth e)) 0 1) else []) \<and>
       (state e \<noteq> INITIALIZED \<longrightarrow>
          pendingWidth e' = Some (validateNumber v (lastValidWidth e)))"
  proof (cases "state e = INITIALIZED")
    case True
    with assms have n: "roundedGain e \<noteq> None" "saturatedGain e \<noteq> None" "filter_node e \<noteq> None"
      "chorus e \<noteq> None" "stereoWidener e \<noteq> None"
      by (simp_all add: nodesReady_def)
    from setWidth_applied[OF True n(4,5), of v] n True show ?thesis
      by (auto simp: nodesReady_def)
  next
    case False
    then show ?thesis
      by (simp add: setWidth_queued nodesReady_def del: validateNumber.simps)
  qed
qed

lemma setter_invalid_as_last_valid:
  assumes "\<forall>r. v \<noteq> Number r"
  shows "setIntensity v e = setIntensity (Number (lastValidIntensity e)) e"
    and "setWidth v e = setWidth (Number (lastValidWidth e)) e"
proof -
  have i: "validateNumber v x = validateNumber (Number x) x" for x
    using validateNumber_invalid[OF assms] by simp
  show "setIntensity v e = setIntensity (Number (lastValidIntensity e)) e"
    unfolding setIntensity_def i ..
  show "setWidth v e = setWidth (Number (lastValidWidth e)) e"
    unfolding setWidth_def i ..
qed

text \<open>
  C9. A setter called with an input that is not a finite number (a value that is not
  a number, \<open>NaN\<close>, an infinity), in an engine that has just taken the valid value
  \<open>r\<close>: the call returns without an exception, behaves exactly like a call with
  \<open>r\<close>, leaves \<open>r\<close> as the last valid value, and what it applies to the audio graph
  (when initialized) or queues (before) is the mapping of \<open>r\<close>.
\<close>

theorem invalid_input_keeps_last_valid:
  assumes "nodesReady e" and "\<forall>x. v \<noteq> Number x"
  shows "(\<exists>e1 e2. setIntensity (Number r) e = Inr e1 \<and> setIntensity v e1 = Inr e2 \<and>
        setIntensity v e1 = setIntensity (Number r) e1 \<and>
        lastValidIntensity e1 = r \<and> lastValidIntensity e2 = r \<and>
        toneCalls e2 = toneCalls e1 @
          (if state e = INITIALIZED then intensityCalls (clamp r 0 1) else []) \<and>
        (state e \<noteq> INITIALIZED \<longrightarrow> pendingIntensity e2 = Some r)) \<and>
     (\<exists>e1 e2. setWidth (Number r) e = Inr e1 \<and> setWidth v e1 = Inr e2 \<and>
        setWidth v e1 = setWidth (Number r) e1 \<and>
        lastValidWidth e1 = r \<and> lastValidWidth e2 = r \<and>
        toneCalls e2 = toneCalls e1 @
          (if state e = INITIALIZED then widthCalls e1 (clamp r 0 1) else []) \<and>
        (state e \<noteq> INITIALIZED \<longrightarrow> pendingWidth e2 = Some r))"
proof -
  have inv: "validateNumber v x = x" for x by (rule validateNumber_invalid[OF assms(2)])
  from setter_succeeds(1)[OF assms(1), of "Number r"] obtain e1 where
    1: "setIntensity (Number r) e = Inr e1" "nodesReady e1" "lastValidIntensity e1 = r"
      "state e1 = state e"
    by auto
  from setter_succeeds(1)[OF 1(2), of v] obtain e2 where
    2: "setIntensity v e1 = Inr e2" "lastValidIntensity e2 = r"
      "toneCalls e2 = toneCalls e1 @
          (if state e = INITIALIZED then intensityCalls (clamp r 0 1) else [])"
      "state e \<noteq> INITIALIZED \<longrightarrow> pendingIntensity e2 = Some r"
    unfolding inv 1(3,4) by blast
  have 3: "setIntensity v e1 = setIntensity (Number r) e1"
    using setter_invalid_as_last_valid(1)[OF assms(2), of e1] 1(3) by simp
  from setter_succeeds(2)[OF assms(1), of "Number r"] obtain w1 where
    4: "setWidth (Number r) e = Inr w1" "nodesReady w1" "lastValidWidth w1 = r"
      "state w1 = state e"
    by auto
  from setter_succeeds(2)[OF 4(2), of v] obtain w2 where
    5: "setWidth v w1 = Inr w2" "lastValidWidth w2 = r"
      "toneCalls w2 = toneCalls w1 @
          (if state e = INITIALIZED then widthCalls w1 (clamp r 0 1) else [])"
      "state e \<noteq> INITIALIZED \<longrightarrow> pendingWidth w2 = Some r"
    unfolding inv 4(3,4) by blast
  have 6: "setWidth v w1 = setWidth (Number r) w1"
    using setter_invalid_as_last_valid(2)[OF assms(2), of w1] 4(3) by simp
  from 1 2 3 4 5 6 show ?thesis by blast
qed

theorem invalid_input_keeps_last_valid_witness:
  "\<exists>e1 e2. setIntensity (Number 0.7) ready_engine = Inr e1 \<and> setIntensity NaN e1 = Inr e2 \<and>
      lastValidIntensity e2 = 0.7 \<and>
      toneCalls e1 = intensityCalls 0.7 \<and>
      toneCalls e2 = intensityCalls 0.7 @ intensityCalls 0.7"
proof -
  have n: "\<forall>x. NaN \<noteq> Number x" by simp
  from invalid_input_keeps_last_valid[OF ready_engine_fields(2) n, of "0.7"]
  obtain e1 e2 where
    r: "setIntensity (Number 0.7) ready_engine = Inr e1" "setIntensity NaN e1 = Inr e2"
      "lastValidIntensity e2 = 0.7"
      "toneCalls e2 = toneCalls e1 @
          (if state ready_engine = INITIALIZED then intensityCalls (clamp 0.7 0 1) else [])"
    by blast
  from setter_succeeds(1)[OF ready_engine_fields(2), of "Number 0.7"] r(1)
  have "toneCalls e1 = intensityCalls 0.7"
    by (simp add: ready_engine_fields clamp_def)
  with r show ?thesis by (simp add: ready_engine_fields clamp_def)
qed


section \<open>Pinch and rotation in the same frame\<close>


text \<open>
  C1, as stated, fails: with the left hand pinching and the right hand holding a fist
  since 0 ms, the frame at 500 ms confirms both; the event has \<open>pinch.active = true\<close>
  and in the same frame \<open>lastRightRotation\<close> goes from 0 to 45.
\<close>

theorem pinch_excludes_rotation_counterexample:
  "onResults 0 0 pinch_and_fist started_detector =
     Inr (detector_holding, Some event_holding, False) \<and>
   onResults 500 500 pinch_and_fist detector_holding =
     Inr (detector_pinch_and_fist, Some event_pinch_and_fist, False) \<and>
   active (pinch event_pinch_and_fist) \<and>
   lastRightRotation detector_holding = 0 \<and>
   lastRightRotation detector_pinch_and_fist = 45"
  using eval_pinch_and_fist_0 eval_pinch_and_fist_500
  by (simp add: event_pinch_and_fist_def detector_holding_def detector_pinch_and_fist_def)

text \<open>
  C1, amended. In a processed frame whose event has \<open>pinch.active = true\<close>, the pinch
  slot is confirmed and some hand of the frame is pinching, and for each side: the
  published rotation is left as it was unless the fist slot of that side is confirmed
  in this frame; if it is confirmed, a hand of that side that is not pinching holds a
  fist in the frame and the published rotation is the one classified for that fist, so
  the fist of the other hand is still tracked while the pinch is active. The event
  carries the published rotations. In a frame with a single hand neither rotation is
  updated.
\<close>

theorem pinch_suspends_unconfirmed_rotation:
  assumes "isInitialized d" and "wellFormed res"
    and "onResults now now' res d = Inr (d', Some ev, rs)"
    and "active (pinch ev)"
  shows "confirmed PinchSlot d' \<and> rawPresent PinchSlot res \<and>
     (\<forall>side.
        (\<not> confirmed (fistSlot side) d' \<longrightarrow>
           publishedRotation side d' = publishedRotation side d) \<and>
        (confirmed (fistSlot side) d' \<longrightarrow>
           Some (publishedRotation side d') = fistRotationIn side (frameHands res) \<and>
           (\<exists>hl \<in> set (frameHands res). fistOn side hl \<and> \<not> pinching hl))) \<and>
     leftRotation ev = lastLeftRotation d' \<and> rightRotation ev = lastRightRotation d' \<and>
     (length (frameHands res) \<le> 1 \<longrightarrow>
        lastLeftRotation d' = lastLeftRotation d \<and> lastRightRotation d' = lastRightRotation d)"
proof -
  have slot: "confirmed sl d' = (rawPresent sl res \<and>
        (case holdStart sl d of
           None \<Rightarrow> sl \<noteq> PinchSlot \<and> confirmed sl d
         | Some s \<Rightarrow> confirmed sl d \<or> HOLD_DURATION_MS \<le> now' - s)) \<and>
     (if confirmed sl d' then Some (publishedBy sl d') = frameValue sl res
      else publishedBy sl d' = (if sl = PinchSlot then PinchOff else publishedBy sl d)) \<and>
     leftRotation ev = lastLeftRotation d' \<and> rightRotation ev = lastRightRotation d' \<and>
     pinch ev = \<lparr> active = pinchActive d', pinch_position = pinchPosition d',
                  pinch_hand = pinchHand d' \<rparr>" for sl
    using onResults_slot[OF assms(2,1), of now now' sl] assms(3) by auto
  have "pinchActive d'" using slot[of PinchSlot] assms(4) by simp
  then have conf: "confirmed PinchSlot d'" using slot[of PinchSlot] by (auto split: if_splits)
  then have raw: "rawPresent PinchSlot res" using slot[of PinchSlot] by simp
  have raw_fist: "rawPresent (fistSlot side) res = list_ex (fistOn side) (frameHands res)" for side
    by (cases side) simp_all
  have sides: "(\<not> confirmed (fistSlot side) d' \<longrightarrow>
           publishedRotation side d' = publishedRotation side d) \<and>
        (confirmed (fistSlot side) d' \<longrightarrow>
           Some (publishedRotation side d') = fistRotationIn side (frameHands res) \<and>
           (\<exists>hl \<in> set (frameHands res). fistOn side hl \<and> \<not> pinching hl))" for side
  proof -
    have un: "\<not> confirmed (fistSlot side) d' \<longrightarrow>
           publishedRotation side d' = publishedRotation side d"
      using slot[of "fistSlot side"] by (cases side) auto
    have pub: "confirmed (fistSlot side) d' \<longrightarrow>
           Some (publishedRotation side d') = fistRotationIn side (frameHands res)"
      using slot[of "fistSlot side"]
      by (cases side; cases "fistRotationIn side (frameHands res)") auto
    have "confirmed (fistSlot side) d' \<longrightarrow> rawPresent (fistSlot side) res"
      using slot[of "fistSlot side"] by simp
    then have ex: "confirmed (fistSlot side) d' \<longrightarrow>
           (\<exists>hl \<in> set (frameHands res). fistOn side hl \<and> \<not> pinching hl)"
      unfolding raw_fist by (auto simp: list_ex_iff fistOn_def pinching_def)
    from un pub ex show ?thesis by blast
  qed
  have single: "length (frameHands res) \<le> 1 \<longrightarrow>
        lastLeftRotation d' = lastLeftRotation d \<and> lastRightRotation d' = lastRightRotation d"
  proof
    assume one: "length (frameHands res) \<le> 1"
    from raw obtain hl where hl: "hl \<in> set (frameHands res)" "pinching hl"
      by (auto simp: list_ex_iff)
    with one have only: "frameHands res = [hl]"
      by (cases "frameHands res") auto
    have "\<not> rawPresent (fistSlot side) res" for side
      unfolding raw_fist only using hl(2) by (simp add: fistOn_def pinching_def)
    then have "\<not> confirmed (fistSlot side) d'" for side
      using slot[of "fistSlot side"] by simp
    then have "publishedRotation side d' = publishedRotation side d" for side
      using sides[of side] by blast
    from this[of Left] this[of Right]
    show "lastLeftRotation d' = lastLeftRotation d \<and> lastRightRotation d' = lastRightRotation d"
      by simp
  qed
  from conf raw sides single slot[of PinchSlot] show ?thesis by blast
qed

lemma fistRotation_pinch_and_fist:
  "fistRotationIn Right (frameHands pinch_and_fist) = Some 45"
  "length (frameHands pinch_only) \<le> 1"
  by (simp_all add: frameHands_def pinch_and_fist_def pinch_only_def fistRotationIn_def fistOn_def
      hand_of_def sample_pinch_class sample_fist_class)

theorem pinch_suspends_unconfirmed_rotation_witness:
  "active (pinch (event_pinch_and_fist\<lparr> handsDetected := 1 \<rparr>)) \<and>
   lastLeftRotation detector_pinch_only = lastLeftRotation detector_pinch_and_fist \<and>
   lastRightRotation detector_pinch_only = lastRightRotation detector_pinch_and_fist \<and>
   active (pinch event_pinch_and_fist) \<and>
   confirmed (fistSlot Right) detector_pinch_and_fist \<and>
   Some (lastRightRotation detector_pinch_and_fist) =
     fistRotationIn Right (frameHands pinch_and_fist) \<and>
   lastRightRotation detector_pinch_and_fist = 45 \<and>
   lastLeftRotation detector_pinch_and_fist = lastLeftRotation detector_holding"
proof -
  have i: "isInitialized detector_pinch_and_fist" "isInitialized detector_holding"
    by (simp_all add: detector_pinch_and_fist_def detector_holding_def)
  have a: "active (pinch (event_pinch_and_fist\<lparr> handsDetected := 1 \<rparr>))"
    "active (pinch event_pinch_and_fist)"
    by (simp_all add: event_pinch_and_fist_def)
  have c: "confirmed (fistSlot Right) detector_pinch_and_fist"
    "\<not> confirmed (fistSlot Left) detector_pinch_and_fist"
    by (simp_all add: detector_pinch_and_fist_def)
  note one = pinch_suspends_unconfirmed_rotation[OF i(1) wellFormed_samples(2) eval_pinch_only_600 a(1)]
  note two = pinch_suspends_unconfirmed_rotation[OF i(2) wellFormed_samples(1) eval_pinch_and_fist_500 a(2)]
  have 1: "lastLeftRotation detector_pinch_only = lastLeftRotation detector_pinch_and_fist \<and>
    lastRightRotation detector_pinch_only = lastRightRotation detector_pinch_and_fist"
    using one fistRotation_pinch_and_fist(2) by blast
  have 2: "Some (lastRightRotation detector_pinch_and_fist) =
     fistRotationIn Right (frameHands pinch_and_fist)"
    using two c(1) by (metis publishedRotation.simps(2))
  have 3: "lastLeftRotation detector_pinch_and_fist = lastLeftRotation detector_holding"
    using two c(2) by (metis publishedRotation.simps(1))
  from 2 have 4: "lastRightRotation detector_pinch_and_fist = 45"
    by (simp add: fistRotation_pinch_and_fist(1))
  from a c 1 2 3 4 show ?thesis by blast
qed

text \<open>
  C2. With two hands pinching in the same frame, the left one first in iteration
  order, the loop of the current \<^verbatim>\<open>getHandRotationAngle\<close> records the candidate of the
  right, second hand, and that is the pinch published once the slot is confirmed at
  500 ms; the claim asks for the left, first hand at (0.61, 0.3). On the same frame
  the older copy of the method, with its guard on \<^verbatim>\<open>this.pinchActive\<close>, publishes the
  first hand.
\<close>

theorem both_pinching_second_hand_published:
  "forEachHand [hand_of Left, hand_of Right] [sample_pinch, sample_pinch_other]
     (detector_both_holding, frame_start) =
     Inr (detector_both_holding,
          \<lparr> leftFistDetected = False, rightFistDetected = False, pinchDetected = True,
            pinchData = Some \<lparr> position = pt 0.21 0.7, hand = Right \<rparr> \<rparr>) \<and>
   getPinchPosition sample_pinch = Inr (pt 0.61 0.3) \<and>
   onResults 0 0 both_pinching started_detector =
     Inr (detector_both_holding, Some event_holding, False) \<and>
   onResults 500 500 both_pinching detector_both_holding =
     Inr (detector_both_pinching, Some event_both_pinching, False) \<and>
   pinch event_both_pinching =
     \<lparr> active = True, pinch_position = Some (pt 0.21 0.7), pinch_hand = Some Right \<rparr> \<and>
   pt 0.21 0.7 \<noteq> pt 0.61 0.3 \<and>
   getHandRotationAngle_older both_pinching started_detector =
     Inr (started_detector\<lparr> pinchActive := True, pinchPosition := Some (pt 0.61 0.3),
                            pinchHand := Some Left \<rparr>,
          \<lparr> left = 0, right = 0 \<rparr>)"
proof -
  have older: "getHandRotationAngle_older both_pinching started_detector =
     Inr (started_detector\<lparr> pinchActive := True, pinchPosition := Some (pt 0.61 0.3),
                            pinchHand := Some Left \<rparr>,
          \<lparr> left = 0, right = 0 \<rparr>)"
    by (simp add: getHandRotationAngle_older_def handBody_older_def both_pinching_def hand_of_def
        sample_pinch_class sample_pinch_other_class started_detector_def new_detector_def)
  show ?thesis
    using eval_both_pinching_0 eval_both_pinching_500 sample_pinch_class(4) older
    by (simp add: handBody_def frame_start_def hand_of_def sample_pinch_class
        sample_pinch_other_class event_both_pinching_def pt_def)
qed

text \<open>
  In general, for any two pinching hands and any detector, the current loop records and
  publishes the second one.
\<close>

lemma two_pinching_hands_last_recorded:
  assumes "pinching (h1, lm1)" and "pinching (h2, lm2)" and "isInitialized d"
  shows "\<exists>p. getPinchPosition lm2 = Inr p \<and>
     (\<exists>f. forEachHand [h1, h2] [lm1, lm2] (d, frame_start) = Inr (d, f) \<and>
          pinchData f = Some \<lparr> position = p, hand = label h2 \<rparr>) \<and>
     (\<exists>d' ev rs.
        onResults now now' \<lparr> multiHandLandmarks = Some [lm1, lm2],
                             multiHandedness = Some [h1, h2] \<rparr> d = Inr (d', Some ev, rs) \<and>
        (active (pinch ev) \<longrightarrow>
           pinch_position (pinch ev) = Some p \<and> pinch_hand (pinch ev) = Some (label h2)))"
proof -
  let ?res = "\<lparr> multiHandLandmarks = Some [lm1, lm2], multiHandedness = Some [h1, h2] \<rparr>"
  have len: "21 \<le> length lm1" "21 \<le> length lm2"
    using pinching_length[OF assms(1)] pinching_length[OF assms(2)] by simp_all
  from position_ok[OF len(2)] obtain p where p: "getPinchPosition lm2 = Inr p" by blast
  have nf: "\<not> fistOn side (h1, lm1)" "\<not> fistOn side (h2, lm2)" for side
    using assms(1,2) by (simp_all add: pinching_def fistOn_def)
  have cand: "pinchCandidateIn [(h1, lm1), (h2, lm2)] = Some \<lparr> position = p, hand = label h2 \<rparr>"
    using assms(1,2) p by (simp add: pinchCandidateIn_def)
  have norot: "fistRotationIn side [(h1, lm1), (h2, lm2)] = None" for side
    using nf by (simp add: fistRotationIn_def)
  from forEachHand_wf[of "[h1, h2]" "[lm1, lm2]" d frame_start] len obtain d1 f where
    fe: "forEachHand [h1, h2] [lm1, lm2] (d, frame_start) = Inr (d1, f)"
    and d1: "d1 = d\<lparr> hand1Rotation := (case fistRotationIn Left (zip [h1, h2] [lm1, lm2]) of None \<Rightarrow> hand1Rotation d | Some r \<Rightarrow> r),
              hand2Rotation := (case fistRotationIn Right (zip [h1, h2] [lm1, lm2]) of None \<Rightarrow> hand2Rotation d | Some r \<Rightarrow> r) \<rparr>"
    and pd: "pinchData f = (case pinchCandidateIn (zip [h1, h2] [lm1, lm2]) of None \<Rightarrow> pinchData frame_start | Some pd \<Rightarrow> Some pd)"
    by auto
  have "d1 = d" using d1 norot by simp
  moreover have "pinchData f = Some \<lparr> position = p, hand = label h2 \<rparr>" using pd cand by simp
  ultimately have loop: "\<exists>f. forEachHand [h1, h2] [lm1, lm2] (d, frame_start) = Inr (d, f) \<and>
          pinchData f = Some \<lparr> position = p, hand = label h2 \<rparr>"
    using fe by blast
  have wf: "wellFormed ?res" using len by (simp add: wellFormed_def)
  have fv: "frameValue PinchSlot ?res = Some (PinchOn (Some p) (Some (label h2)))"
    using cand by (simp add: frameHands_def)
  from onResults_slot[OF wf assms(3), of now now' PinchSlot] obtain d' ev rs where
    step: "onResults now now' ?res d = Inr (d', Some ev, rs)"
    and pub: "if confirmed PinchSlot d' then Some (publishedBy PinchSlot d') = frameValue PinchSlot ?res
      else publishedBy PinchSlot d' = (if PinchSlot = PinchSlot then PinchOff else publishedBy PinchSlot d)"
    and ev: "pinch ev = \<lparr> active = pinchActive d', pinch_position = pinchPosition d',
                  pinch_hand = pinchHand d' \<rparr>"
    by blast
  have "active (pinch ev) \<longrightarrow>
           pinch_position (pinch ev) = Some p \<and> pinch_hand (pinch ev) = Some (label h2)"
    using pub ev fv by (auto split: if_splits)
  with p loop step show ?thesis by blast
qed

end
